theory Spec2Isabelle
  imports Complex_Main "HOL-Library.AList" "HOL-Library.Sublist"
begin

section \<open>Data model\<close>

text \<open>
  The source file is \<^verbatim>\<open>post-test-results-to-azure-devops/post_results.py\<close>.
  Every value the client handles comes out of a JSON document (the input file or a
  response body), so values are JSON trees. An object is an association list in
  insertion order, which is also the order of a Python \<^verbatim>\<open>dict\<close>; \<^const>\<open>map_of\<close>
  reads a key and \<^const>\<open>AList.update\<close> is the assignment \<^verbatim>\<open>d[k] = v\<close> (an existing key
  keeps its position, a new key goes to the end). A list that repeats a key stands for
  the dict that holds the first of its entries. The program compares numbers with
  nothing and computes with none, so integers and fractions are carried as they are.
\<close>

datatype json =
    JNull
  | JBool bool
  | JInt int
  | JFloat real
  | JStr string
  | JArr "json list"
  | JObj "(string \<times> json) list"

type_synonym dict = "(string \<times> json) list"

text \<open>
  The exceptions the modelled code can raise. \<open>KeyError\<close> carries the missing key,
  \<open>TypeError\<close> the Python type name of the value that does not support the operation,
  \<open>ValueError\<close> its message, \<open>HTTPError\<close> the status code that \<^verbatim>\<open>raise_for_status\<close>
  rejected; \<open>JSONDecodeError\<close> stands for a response body that is not JSON.
\<close>

datatype error =
    KeyError string
  | TypeError string
  | ValueError string
  | HTTPError int
  | JSONDecodeError

definition bind_err :: "error + 'a \<Rightarrow> ('a \<Rightarrow> error + 'b) \<Rightarrow> error + 'b" where
  "bind_err m f = (case m of Inl e \<Rightarrow> Inl e | Inr x \<Rightarrow> f x)"

definition py_type :: "json \<Rightarrow> string" where
  "py_type v =
     (case v of
        JNull \<Rightarrow> ''NoneType''
      | JBool _ \<Rightarrow> ''bool''
      | JInt _ \<Rightarrow> ''int''
      | JFloat _ \<Rightarrow> ''float''
      | JStr _ \<Rightarrow> ''str''
      | JArr _ \<Rightarrow> ''list''
      | JObj _ \<Rightarrow> ''dict'')"

text \<open>\<^verbatim>\<open>v[k]\<close> for a string key \<open>k\<close>: only a dict can be read that way.\<close>

definition getitem :: "json \<Rightarrow> string \<Rightarrow> error + json" where
  "getitem v k =
     (case v of
        JObj d \<Rightarrow> (case map_of d k of Some x \<Rightarrow> Inr x | None \<Rightarrow> Inl (KeyError k))
      | _ \<Rightarrow> Inl (TypeError (py_type v)))"

text \<open>
  \<^verbatim>\<open>for x in v\<close>: a list yields its elements, a dict its keys, a string its characters;
  nothing else can be iterated.
\<close>

definition iter :: "json \<Rightarrow> error + json list" where
  "iter v =
     (case v of
        JArr xs \<Rightarrow> Inr xs
      | JObj d \<Rightarrow> Inr (map (\<lambda>kv. JStr (fst kv)) d)
      | JStr s \<Rightarrow> Inr (map (\<lambda>c. JStr [c]) s)
      | _ \<Rightarrow> Inl (TypeError (py_type v)))"

text \<open>
  A response of the HTTP session, as far as the client reads it: the status code, the
  body text, and the body parsed as JSON (\<open>None\<close> when the body is not JSON). The
  session itself, the URLs and the logging hook are the transport; each modelled method
  takes the response its request received.
\<close>

record response =
  status_code :: int
  response_text :: string
  json_body :: "json option"

definition raise_for_status :: "response \<Rightarrow> error + unit" where
  "raise_for_status r =
     (if 400 \<le> status_code r \<and> status_code r < 600 then Inl (HTTPError (status_code r))
      else Inr ())"

definition response_json :: "response \<Rightarrow> error + json" where
  "response_json r = (case json_body r of None \<Rightarrow> Inl JSONDecodeError | Some v \<Rightarrow> Inr v)"

text \<open>
  The four GET methods share their first lines: \<^verbatim>\<open>raise_for_status\<close>, \<^verbatim>\<open>response.json()\<close>,
  the \<^verbatim>\<open>"value"\<close> entry, and the iteration over it.
\<close>

definition response_value :: "response \<Rightarrow> error + json list" where
  "response_value r =
     bind_err (raise_for_status r) (\<lambda>_.
     bind_err (response_json r) (\<lambda>ado_response.
     bind_err (getitem ado_response ''value'') iter))"

text \<open>Python's \<^verbatim>\<open>str\<close> of an integer, as an f-string renders it.\<close>

fun str_nat :: "nat \<Rightarrow> string" where
  "str_nat n =
     (if n < 10 then [''0123456789'' ! n]
      else str_nat (n div 10) @ [''0123456789'' ! (n mod 10)])"

declare str_nat.simps [simp del]

definition str_int :: "int \<Rightarrow> string" where
  "str_int i = (if i < 0 then ''-'' @ str_nat (nat (- i)) else str_nat (nat i))"

definition quote :: string where
  "quote = [CHR 0x27]"

section \<open>The client\<close>

text \<open>
  Of the fields of \<^verbatim>\<open>AzureDevOpsClient\<close> only \<^verbatim>\<open>is_failure\<close> is read or written by the
  methods below; the others configure the transport. The class attribute
  \<^verbatim>\<open>is_failure = False\<close> is what a new instance reads until line 120 assigns it.
\<close>

record client =
  is_failure :: bool

definition new_client :: client where
  "new_client = \<lparr>is_failure = False\<rparr>"

subsection \<open>Name resolution (lines 48 to 68)\<close>

text \<open>
  The loops of \<^verbatim>\<open>get_test_plan_id\<close> and \<^verbatim>\<open>get_test_suite_id\<close> are the same scan; the
  exception raised after the loop is the one thing that differs, and is passed in.
  The requested name is a string, as the input document has it, so \<^verbatim>\<open>==\<close> holds
  exactly of the JSON string with the same characters.
\<close>

fun scan_names :: "json list \<Rightarrow> string \<Rightarrow> error \<Rightarrow> error + json" where
  "scan_names [] name not_found = Inl not_found"
| "scan_names (item # rest) name not_found =
     bind_err (getitem item ''name'') (\<lambda>n.
       if n = JStr name then getitem item ''id'' else scan_names rest name not_found)"

definition get_test_plan_id :: "response \<Rightarrow> string \<Rightarrow> error + json" where
  "get_test_plan_id response test_plan_name =
     bind_err (response_value response) (\<lambda>plans.
       scan_names plans test_plan_name
         (ValueError (''Test plan '' @ quote @ test_plan_name @ quote @ '' not found'')))"

text \<open>
  The message of \<^verbatim>\<open>get_test_suite_id\<close> formats the plan id, which is whatever JSON value
  the server sent as the plan's \<^verbatim>\<open>"id"\<close>; Python's \<^verbatim>\<open>str\<close> of an arbitrary value is the
  parameter \<open>fmt\<close>.
\<close>

definition get_test_suite_id ::
    "(json \<Rightarrow> string) \<Rightarrow> response \<Rightarrow> json \<Rightarrow> string \<Rightarrow> error + json" where
  "get_test_suite_id fmt response test_plan_id test_suite_name =
     bind_err (response_value response) (\<lambda>suites.
       scan_names suites test_suite_name
         (ValueError (''Test suite '' @ quote @ test_suite_name @ quote
            @ '' not found in plan '' @ fmt test_plan_id)))"

subsection \<open>Test points and the run (lines 70 to 99)\<close>

text \<open>The list comprehension of \<^verbatim>\<open>get_test_points\<close>, line 79.\<close>

fun collect_ids :: "json list \<Rightarrow> error + json list" where
  "collect_ids [] = Inr []"
| "collect_ids (v # rest) =
     bind_err (getitem v ''id'') (\<lambda>i.
     bind_err (collect_ids rest) (\<lambda>ids. Inr (i # ids)))"

definition get_test_points :: "response \<Rightarrow> error + json list" where
  "get_test_points response = bind_err (response_value response) collect_ids"

text \<open>
  \<^verbatim>\<open>create_test_run\<close> posts the run descriptor and reads the run id from the response.
  It returns the JSON body it posts and its outcome; \<open>now\<close> is the formatted time of
  the call.
\<close>

definition create_test_run ::
    "string \<Rightarrow> string \<Rightarrow> json \<Rightarrow> json list \<Rightarrow> string \<Rightarrow> response \<Rightarrow> dict \<times> (error + json)" where
  "create_test_run test_plan_name test_suite_name test_plan_id test_point_ids now response =
     ([(''name'', JStr (''Automation Test Run - '' @ test_suite_name)),
       (''plan'', JObj [(''id'', test_plan_id)]),
       (''pointIds'', JArr test_point_ids),
       (''automated'', JBool True),
       (''comment'', JStr (''Automation Test Run Execution:'' @ [CHR 0x0A]
          @ ''- TestPlanName : '' @ test_plan_name @ [CHR 0x0A]
          @ ''- TestSuiteName : '' @ test_suite_name @ [CHR 0x0A]
          @ ''- Timestamp : '' @ now))],
      bind_err (raise_for_status response) (\<lambda>_.
      bind_err (response_json response) (\<lambda>ado_response.
        getitem ado_response ''id'')))"

subsection \<open>Merging the results (lines 101 to 122)\<close>

text \<open>
  \<^verbatim>\<open>process_test_results\<close> updates the dictionaries of the caller's mapping in place and
  returns a list of references to them, so dictionaries live in a store: an address is an
  index into the list of allocated dictionaries, \<^verbatim>\<open>test_results\<close> maps a test-case id to
  the address of its record, and the payload is a list of addresses. The values of the
  mapping are result objects, as the input document has them; a value that is no
  dictionary has no place in this type (line 111 would raise on it).
\<close>

type_synonym addr = nat
type_synonym heap = "dict list"
type_synonym results = "(string \<times> addr) list"

text \<open>
  \<^verbatim>\<open>test_results.get(key, default)\<close>: the keys of the mapping are strings, so no other
  hashable value finds anything, and a list or a dict cannot be hashed.
\<close>

definition dict_get :: "results \<Rightarrow> json \<Rightarrow> error + addr option" where
  "dict_get test_results key =
     (case key of
        JStr s \<Rightarrow> Inr (map_of test_results s)
      | JArr _ \<Rightarrow> Inl (TypeError ''list'')
      | JObj _ \<Rightarrow> Inl (TypeError ''dict'')
      | _ \<Rightarrow> Inr None)"

text \<open>\<^verbatim>\<open>point_result["testCase"]["id"]\<close>, lines 108 to 110.\<close>

definition test_case_id :: "json \<Rightarrow> error + json" where
  "test_case_id point_result =
     bind_err (getitem point_result ''testCase'') (\<lambda>test_case. getitem test_case ''id'')"

text \<open>
  One pass of the loop body, lines 108 to 121. The default \<^verbatim>\<open>{"outcome": "NotExecuted"}\<close>
  is a new dictionary on every pass, allocated before \<^verbatim>\<open>get\<close> is called; \<open>result\<close> is
  the address \<^verbatim>\<open>get\<close> returns. It returns that address, the store and the client.
\<close>

definition process_point ::
    "client \<Rightarrow> results \<Rightarrow> json \<Rightarrow> heap \<Rightarrow> error + (addr \<times> heap \<times> client)" where
  "process_point self test_results point_result h =
     bind_err (test_case_id point_result) (\<lambda>key.
     let default = length h;
         h1 = h @ [[(''outcome'', JStr ''NotExecuted'')]]
     in
     bind_err (dict_get test_results key) (\<lambda>found.
     let result = (case found of Some a \<Rightarrow> a | None \<Rightarrow> default) in
     bind_err (getitem point_result ''id'') (\<lambda>point_id.
     let priority = (case map_of (h1 ! result) ''priority'' of Some v \<Rightarrow> v | None \<Rightarrow> JInt 2);
         h2 = h1[result :=
                AList.update ''priority'' priority
                  (AList.update ''state'' (JStr ''Completed'')
                    (AList.update ''id'' point_id (h1 ! result)))]
     in
     case map_of (h2 ! result) ''outcome'' of
       None \<Rightarrow> Inl (KeyError ''outcome'')
     | Some outcome \<Rightarrow>
         if outcome \<noteq> JStr ''Passed'' then
           let failure_type =
                 (case map_of (h2 ! result) ''failureType'' of
                    Some v \<Rightarrow> v
                  | None \<Rightarrow> JStr ''New Issue'');
               h3 = h2[result := AList.update ''failureType'' failure_type (h2 ! result)]
           in Inr (result, h3, self\<lparr>is_failure := True\<rparr>)
         else Inr (result, h2, self))))"

fun process_points ::
    "client \<Rightarrow> results \<Rightarrow> json list \<Rightarrow> heap \<Rightarrow> addr list
      \<Rightarrow> error + (addr list \<times> heap \<times> client)" where
  "process_points self test_results [] h test_results_payload =
     Inr (test_results_payload, h, self)"
| "process_points self test_results (point_result # rest) h test_results_payload =
     bind_err (process_point self test_results point_result h) (\<lambda>(result, h', self').
       process_points self' test_results rest h' (test_results_payload @ [result]))"

definition process_test_results ::
    "client \<Rightarrow> response \<Rightarrow> results \<Rightarrow> heap \<Rightarrow> error + (addr list \<times> heap \<times> client)" where
  "process_test_results self response test_results h =
     bind_err (response_value response) (\<lambda>test_points_results.
       process_points self test_results test_points_results h [])"

subsection \<open>Submitting and completing (lines 124 to 151)\<close>

text \<open>
  Both methods send one PATCH and then look at its response. Each returns the JSON body
  it sent together with its outcome, so that what was sent can be stated also when the
  response makes the method raise. \<open>now\<close> is the formatted completion time.
\<close>

definition post_test_results ::
    "heap \<Rightarrow> addr list \<Rightarrow> response \<Rightarrow> dict list \<times> (error + unit)" where
  "post_test_results h test_results_payload response =
     (map (\<lambda>a. h ! a) test_results_payload,
      if status_code response \<noteq> 200 then
        Inl (ValueError
          (''Unexpected Response while posting test results to ADO: ''
            @ ''status_code: '' @ str_int (status_code response)
            @ '' response_text: '' @ response_text response))
      else Inr ())"

definition complete_test_run :: "client \<Rightarrow> string \<Rightarrow> response \<Rightarrow> dict \<times> (error + unit)" where
  "complete_test_run self now response =
     (let state = (if is_failure self then ''NeedsInvestigation'' else ''Completed'') in
      ([(''state'', JStr state), (''completedDate'', JStr now)],
       if status_code response \<noteq> 200 then
         Inl (ValueError
           (''Unexpected Response while completing the test run in ADO: ''
             @ ''status_code: '' @ str_int (status_code response)
             @ '' response_text: '' @ response_text response))
       else Inr ()))"

subsection \<open>The pipeline (lines 163 to 172)\<close>

text \<open>
  \<^verbatim>\<open>main\<close> after the input document is read: the plan name, the suite name and the
  results mapping are its fields. \<open>srv\<close> holds the response to each of the seven
  requests, in the order they are sent. An exception raised by a step ends the run (the
  handlers of lines 174 to 182 log and re-raise). A run that ends normally returns the
  bodies of the three requests that carry data: the run descriptor, the submitted
  records and the completion.
\<close>

record replies =
  on_plans :: response
  on_suites :: response
  on_points :: response
  on_create :: response
  on_results :: response
  on_post :: response
  on_complete :: response

definition main ::
    "(json \<Rightarrow> string) \<Rightarrow> string \<Rightarrow> string \<Rightarrow> results \<Rightarrow> heap \<Rightarrow> replies \<Rightarrow> string \<Rightarrow> string
      \<Rightarrow> error + (dict \<times> dict list \<times> dict)" where
  "main fmt test_plan_name test_suite_name test_results h srv created_at completed_at =
     (let ado_client = new_client in
      bind_err (get_test_plan_id (on_plans srv) test_plan_name) (\<lambda>test_plan_id.
      bind_err (get_test_suite_id fmt (on_suites srv) test_plan_id test_suite_name)
        (\<lambda>test_suite_id.
      bind_err (get_test_points (on_points srv)) (\<lambda>test_points.
      let (run_body, created) =
            create_test_run test_plan_name test_suite_name test_plan_id test_points
              created_at (on_create srv)
      in
      bind_err created (\<lambda>run_id.
      bind_err (process_test_results ado_client (on_results srv) test_results h)
        (\<lambda>(test_results_payload, h', ado_client').
      let (results_body, posted) =
            post_test_results h' test_results_payload (on_post srv)
      in
      bind_err posted (\<lambda>_.
      let (run_state, completed) =
            complete_test_run ado_client' completed_at (on_complete srv)
      in
      bind_err completed (\<lambda>_. Inr (run_body, results_body, run_state)))))))))"

section \<open>Vocabulary of the statements\<close>

text \<open>
  \<open>field v k\<close> is the entry \<open>k\<close> of the object \<open>v\<close>, if \<open>v\<close> is an object and has one.
  A plan or a suite as the service lists it is \<open>named\<close>: an object with a \<^verbatim>\<open>"name"\<close>
  and an \<^verbatim>\<open>"id"\<close>.
\<close>

definition field :: "json \<Rightarrow> string \<Rightarrow> json option" where
  "field v k = (case v of JObj d \<Rightarrow> map_of d k | _ \<Rightarrow> None)"

definition named :: "json \<Rightarrow> bool" where
  "named v = (field v ''name'' \<noteq> None \<and> field v ''id'' \<noteq> None)"

text \<open>
  What one pass of the loop does to the dictionary it works on, as a function on that
  dictionary: \<open>stamp point_id d\<close> sets \<^verbatim>\<open>id\<close>, \<^verbatim>\<open>state\<close> and \<^verbatim>\<open>priority\<close>, and
  \<^verbatim>\<open>failureType\<close> when the outcome is not \<^verbatim>\<open>"Passed"\<close>. \<open>default_result\<close> is the
  dictionary the loop works on when the mapping has no entry.
\<close>

definition default_result :: dict where
  "default_result = [(''outcome'', JStr ''NotExecuted'')]"

definition stamp :: "json \<Rightarrow> dict \<Rightarrow> dict" where
  "stamp point_id d =
     (let d2 = AList.update ''priority''
                 (case map_of d ''priority'' of Some v \<Rightarrow> v | None \<Rightarrow> JInt 2)
                 (AList.update ''state'' (JStr ''Completed'')
                   (AList.update ''id'' point_id d))
      in if map_of d ''outcome'' = Some (JStr ''Passed'') then d2
         else AList.update ''failureType''
                (case map_of d ''failureType'' of Some v \<Rightarrow> v | None \<Rightarrow> JStr ''New Issue'')
                d2)"

text \<open>
  The loop body in two steps: \<open>point_target\<close> reads the placeholder and finds the
  address to work on (\<open>n\<close> is the address of the new default dictionary), and
  \<open>write_back\<close> stamps the dictionary at that address, or raises when it has no
  outcome. \<^const>\<open>process_point\<close> is shown below to be their composition.
\<close>

definition point_target :: "results \<Rightarrow> json \<Rightarrow> nat \<Rightarrow> error + (addr \<times> json)" where
  "point_target tr p n =
     bind_err (test_case_id p) (\<lambda>key.
     bind_err (dict_get tr key) (\<lambda>found.
     bind_err (getitem p ''id'') (\<lambda>pid.
       Inr (case found of Some a \<Rightarrow> a | None \<Rightarrow> n, pid))))"

definition write_back :: "client \<Rightarrow> heap \<Rightarrow> addr \<times> json \<Rightarrow> error + (addr \<times> heap \<times> client)" where
  "write_back c hx tp =
     (case tp of (t, pid) \<Rightarrow>
        (case map_of (hx ! t) ''outcome'' of
           None \<Rightarrow> Inl (KeyError ''outcome'')
         | Some oc \<Rightarrow>
             Inr (t, hx[t := stamp pid (hx ! t)],
                  if oc = JStr ''Passed'' then c else c\<lparr>is_failure := True\<rparr>)))"

text \<open>
  \<open>valid_refs\<close>: every value of the mapping is an allocated dictionary, which holds of
  any mapping a Python program can build. \<open>lookup_point\<close> is the address the mapping
  holds for a placeholder's test-case id, \<open>target\<close> the address the loop works on for
  the placeholder it meets when the store has \<open>n\<close> cells, and \<open>local_result\<close> the
  dictionary found there before the call: the caller's record, or the default.
  \<open>held_under test_results k a\<close> says that the mapping holds the dictionary at \<open>a\<close>
  under the key \<open>k\<close> and under no other key, as in a mapping parsed from JSON, where
  every value is an object of its own.
\<close>

definition valid_refs :: "results \<Rightarrow> heap \<Rightarrow> bool" where
  "valid_refs test_results h = list_all (\<lambda>ka. snd ka < length h) test_results"

definition lookup_point :: "results \<Rightarrow> json \<Rightarrow> addr option" where
  "lookup_point test_results p =
     (case test_case_id p of Inr (JStr k) \<Rightarrow> map_of test_results k | _ \<Rightarrow> None)"

definition target :: "results \<Rightarrow> nat \<times> json \<Rightarrow> addr" where
  "target tr np = (case lookup_point tr (snd np) of Some a \<Rightarrow> a | None \<Rightarrow> fst np)"

definition local_result :: "results \<Rightarrow> heap \<Rightarrow> json \<Rightarrow> dict" where
  "local_result tr h p = (case lookup_point tr p of Some a \<Rightarrow> h ! a | None \<Rightarrow> default_result)"

definition held_under :: "results \<Rightarrow> string \<Rightarrow> addr \<Rightarrow> bool" where
  "held_under tr k a =
     (map_of tr k = Some a \<and> list_all (\<lambda>ka. snd ka = a \<longrightarrow> fst ka = k) tr)"

text \<open>
  The invariant of the loop. \<open>input_record h0 a\<close> is what address \<open>a\<close> held when the
  call began, or the default for an address allocated since. A dictionary is \<open>settled\<close>
  when it reads as its input record stamped once; \<open>failed\<close> says that the outcome is
  not \<^verbatim>\<open>"Passed"\<close>. \<open>merge_inv h0 c0\<close> relates the store and flag at the start of the
  call to the payload, store and client after some passes.
\<close>

definition input_record :: "heap \<Rightarrow> addr \<Rightarrow> dict" where
  "input_record h a = (if a < length h then h ! a else default_result)"

definition settled :: "dict \<Rightarrow> dict \<Rightarrow> bool" where
  "settled d0 d = (\<exists>pid. map_of d = map_of (stamp pid d0))"

definition failed :: "dict \<Rightarrow> bool" where
  "failed d = (map_of d ''outcome'' \<noteq> Some (JStr ''Passed''))"

definition merge_inv :: "heap \<Rightarrow> client \<Rightarrow> addr list \<times> heap \<times> client \<Rightarrow> bool" where
  "merge_inv h0 c0 s =
     (case s of (acc, h, c) \<Rightarrow>
        length h0 \<le> length h
      \<and> (\<forall>a < length h. h ! a = input_record h0 a \<or> settled (input_record h0 a) (h ! a))
      \<and> (\<forall>a \<in> set acc. a < length h \<and> settled (input_record h0 a) (h ! a))
      \<and> (is_failure c \<longleftrightarrow> is_failure c0 \<or> (\<exists>a \<in> set acc. failed (h ! a))))"

text \<open>
  \<open>keep_cell b d\<close> overwrites cell \<open>b\<close> of the store in a result with \<open>d\<close> and leaves
  everything else of the result, an error included, as it is.
\<close>

definition keep_cell :: "addr \<Rightarrow> dict \<Rightarrow> error + ('a \<times> heap \<times> client) \<Rightarrow> error + ('a \<times> heap \<times> client)" where
  "keep_cell b d res = map_sum id (\<lambda>s. (fst s, (fst (snd s))[b := d], snd (snd s))) res"

text \<open>
  Inputs on which the merge cannot raise: \<open>point_ok\<close> placeholders have an \<^verbatim>\<open>"id"\<close> and
  a hashable \<^verbatim>\<open>testCase.id\<close>, and \<open>records_ok\<close> mappings hold records with an outcome.
  \<open>all_passed\<close>: every record of the mapping has outcome \<^verbatim>\<open>"Passed"\<close>;
  \<open>all_matched\<close>: the test-case id of every placeholder is a key of the mapping.
\<close>

definition hashable :: "json \<Rightarrow> bool" where
  "hashable key = (case key of JArr _ \<Rightarrow> False | JObj _ \<Rightarrow> False | _ \<Rightarrow> True)"

definition point_ok :: "json \<Rightarrow> bool" where
  "point_ok p =
     ((case test_case_id p of Inr key \<Rightarrow> hashable key | Inl _ \<Rightarrow> False)
      \<and> \<not> isl (getitem p ''id''))"

definition records_ok :: "results \<Rightarrow> heap \<Rightarrow> bool" where
  "records_ok tr h = list_all (\<lambda>ka. map_of (h ! snd ka) ''outcome'' \<noteq> None) tr"

definition all_passed :: "results \<Rightarrow> heap \<Rightarrow> bool" where
  "all_passed tr h =
     list_all (\<lambda>ka. map_of (h ! snd ka) ''outcome'' = Some (JStr ''Passed'')) tr"

definition all_matched :: "results \<Rightarrow> json list \<Rightarrow> bool" where
  "all_matched tr points = list_all (\<lambda>p. lookup_point tr p \<noteq> None) points"

section \<open>Example inputs\<close>

text \<open>
  The plan list of the specification's example; a response listing given items; a
  placeholder record \<^verbatim>\<open>{"id": i, "testCase": {"id": k}}\<close>.
\<close>

definition plans_AB :: response where
  "plans_AB = \<lparr>status_code = 200, response_text = [],
     json_body = Some (JObj [(''value'', JArr
       [JObj [(''id'', JInt 1), (''name'', JStr ''A'')],
        JObj [(''id'', JInt 2), (''name'', JStr ''B'')]])])\<rparr>"

definition listing :: "json list \<Rightarrow> response" where
  "listing items = \<lparr>status_code = 200, response_text = [],
     json_body = Some (JObj [(''value'', JArr items)])\<rparr>"

definition point :: "int \<Rightarrow> string \<Rightarrow> json" where
  "point i k = JObj [(''id'', JInt i), (''testCase'', JObj [(''id'', JStr k)])]"

text \<open>
  A mapping with two failed records, the second under a test-case id that no placeholder
  has, and three placeholders of which the first and the last share a test-case id and
  the second has no local result; \<open>ex_merged\<close> is the store after the merge.
\<close>

definition ex_results :: results where
  "ex_results = [(''123'', 0), (''5'', 1)]"

definition ex_heap :: heap where
  "ex_heap = [[(''outcome'', JStr ''Failed''), (''priority'', JInt 1)],
              [(''outcome'', JStr ''Failed'')]]"

definition ex_points :: "json list" where
  "ex_points = [point 10 ''123'', point 77 ''999'', point 11 ''123'']"

definition ex_merged :: heap where
  "ex_merged =
     [[(''outcome'', JStr ''Failed''), (''priority'', JInt 1), (''id'', JInt 11),
       (''state'', JStr ''Completed''), (''failureType'', JStr ''New Issue'')],
      [(''outcome'', JStr ''Failed'')],
      [(''outcome'', JStr ''NotExecuted'')],
      [(''outcome'', JStr ''NotExecuted''), (''id'', JInt 77),
       (''state'', JStr ''Completed''), (''priority'', JInt 2),
       (''failureType'', JStr ''New Issue'')],
      [(''outcome'', JStr ''NotExecuted'')]]"

text \<open>A mapping with one passed record, and the responses of a whole run.\<close>

definition ok_results :: results where
  "ok_results = [(''123'', 0)]"

definition ok_heap :: heap where
  "ok_heap = [[(''outcome'', JStr ''Passed'')]]"

definition ok_response :: response where
  "ok_response = \<lparr>status_code = 200, response_text = ''{}'', json_body = Some (JObj [])\<rparr>"

definition created_42 :: response where
  "created_42 = \<lparr>status_code = 200, response_text = [],
     json_body = Some (JObj [(''id'', JInt 42)])\<rparr>"

definition ex_replies :: replies where
  "ex_replies = \<lparr>on_plans = plans_AB, on_suites = plans_AB,
     on_points = listing [JObj [(''id'', JInt 7)]], on_create = created_42,
     on_results = listing ex_points, on_post = ok_response, on_complete = ok_response\<rparr>"

section \<open>Properties\<close>

subsection \<open>Auxiliary facts\<close>

lemma bind_err_simps [simp]:
  "bind_err (Inl e) f = Inl e"
  "bind_err (Inr x) f = f x"
  by (simp_all add: bind_err_def)

lemma bind_err_Inr_iff:
  "bind_err m f = Inr y \<longleftrightarrow> (\<exists>x. m = Inr x \<and> f x = Inr y)"
  by (cases m) simp_all

lemma getitem_field:
  "field v k = Some x \<Longrightarrow> getitem v k = Inr x"
  by (cases v) (simp_all add: field_def getitem_def)

lemma scan_names_find:
  assumes "list_all named items"
  shows "scan_names items name err =
     (case find (\<lambda>x. field x ''name'' = Some (JStr name)) items of
        Some x \<Rightarrow> Inr (the (field x ''id''))
      | None \<Rightarrow> Inl err)"
  using assms
proof (induction items)
  case Nil
  then show ?case by simp
next
  case (Cons item rest)
  from Cons.prems obtain n i where n: "field item ''name'' = Some n"
    and i: "field item ''id'' = Some i"
    by (auto simp: named_def)
  show ?case
  proof (cases "n = JStr name")
    case True
    then show ?thesis using n i by (simp add: getitem_field)
  next
    case False
    then show ?thesis using n i Cons by (simp add: getitem_field)
  qed
qed

lemma plans_AB_value:
  "response_value plans_AB =
     Inr [JObj [(''id'', JInt 1), (''name'', JStr ''A'')],
          JObj [(''id'', JInt 2), (''name'', JStr ''B'')]]"
  by (simp add: plans_AB_def response_value_def raise_for_status_def response_json_def
      getitem_def iter_def)

lemma sublist_third: "sublist x (a @ b @ x @ c @ d)"
  by (metis append.assoc sublist_appendI)

lemma sublist_fifth: "sublist x (a @ b @ c @ d @ x)"
  by (metis append.assoc sublist_append_leftI)

lemma str_int_500: "str_int 500 = ''500''"
  by (simp add: str_int_def str_nat.simps)

lemma map_of_stamp:
  "map_of (stamp pid d) k =
     (if k = ''id'' then Some pid
      else if k = ''state'' then Some (JStr ''Completed'')
      else if k = ''priority'' then
        Some (case map_of d ''priority'' of Some v \<Rightarrow> v | None \<Rightarrow> JInt 2)
      else if k = ''failureType'' \<and> map_of d ''outcome'' \<noteq> Some (JStr ''Passed'') then
        Some (case map_of d ''failureType'' of Some v \<Rightarrow> v | None \<Rightarrow> JStr ''New Issue'')
      else map_of d k)"
  by (simp add: stamp_def Let_def update_conv')

lemma valid_refs_lookup:
  "valid_refs tr h \<Longrightarrow> lookup_point tr p = Some b \<Longrightarrow> b < length h"
  by (auto simp: valid_refs_def lookup_point_def list_all_iff dest!: map_of_SomeD
      split: sum.splits json.splits)

lemma dict_get_lookup:
  "test_case_id p = Inr key \<Longrightarrow> dict_get tr key = Inr found \<Longrightarrow> lookup_point tr p = found"
  by (cases key) (auto simp: dict_get_def lookup_point_def)

lemma point_target_Inr:
  assumes "point_target tr p n = Inr (t, pid)"
  shows "getitem p ''id'' = Inr pid"
    and "t = (case lookup_point tr p of Some b \<Rightarrow> b | None \<Rightarrow> n)"
proof -
  from assms obtain key where key: "test_case_id p = Inr key"
    by (cases "test_case_id p") (simp_all add: point_target_def)
  from assms key obtain found where found: "dict_get tr key = Inr found"
    by (cases "dict_get tr key") (simp_all add: point_target_def)
  from assms key found obtain pid' where pid: "getitem p ''id'' = Inr pid'"
    by (cases "getitem p ''id''") (simp_all add: point_target_def)
  have lp: "lookup_point tr p = found"
    using key found by (rule dict_get_lookup)
  from assms show "getitem p ''id'' = Inr pid"
    and "t = (case lookup_point tr p of Some b \<Rightarrow> b | None \<Rightarrow> n)"
    by (simp_all add: point_target_def key found pid lp)
qed

lemma point_target_bound:
  assumes "point_target tr p (length h) = Inr (t, pid)" and "valid_refs tr h"
  shows "t < Suc (length h)"
  using point_target_Inr(2) [OF assms(1)] valid_refs_lookup [OF assms(2), of p]
  by (cases "lookup_point tr p") (auto simp: less_Suc_eq)

lemma write_back_eq:
  assumes t1: "t < length h1"
  shows "(let priority = (case map_of (h1 ! t) ''priority'' of Some v \<Rightarrow> v | None \<Rightarrow> JInt 2);
         h2 = h1[t :=
                AList.update ''priority'' priority
                  (AList.update ''state'' (JStr ''Completed'')
                    (AList.update ''id'' pid (h1 ! t)))]
     in
     case map_of (h2 ! t) ''outcome'' of
       None \<Rightarrow> Inl (KeyError ''outcome'')
     | Some outcome \<Rightarrow>
         if outcome \<noteq> JStr ''Passed'' then
           let failure_type =
                 (case map_of (h2 ! t) ''failureType'' of
                    Some v \<Rightarrow> v
                  | None \<Rightarrow> JStr ''New Issue'');
               h3 = h2[t := AList.update ''failureType'' failure_type (h2 ! t)]
           in Inr (t, h3, c\<lparr>is_failure := True\<rparr>)
         else Inr (t, h2, c)) = write_back c h1 (t, pid)"
proof -
  define d where "d = h1 ! t"
  define d2 where "d2 = AList.update ''priority''
                 (case map_of d ''priority'' of Some v \<Rightarrow> v | None \<Rightarrow> JInt 2)
                 (AList.update ''state'' (JStr ''Completed'')
                   (AList.update ''id'' pid d))"
  have d2_oc: "map_of d2 ''outcome'' = map_of d ''outcome''"
    and d2_ft: "map_of d2 ''failureType'' = map_of d ''failureType''"
    by (simp_all add: d2_def update_conv')
  have st: "stamp pid d = (if map_of d ''outcome'' = Some (JStr ''Passed'') then d2
      else AList.update ''failureType''
             (case map_of d ''failureType'' of Some v \<Rightarrow> v | None \<Rightarrow> JStr ''New Issue'') d2)"
    by (simp add: stamp_def Let_def d2_def)
  show ?thesis
    unfolding Let_def write_back_def prod.case d_def [symmetric] d2_def [symmetric]
    unfolding nth_list_update_eq [OF t1] d2_oc d2_ft list_update_overwrite st
    by (cases "map_of d ''outcome''") simp_all
qed

lemma process_point_alt:
  assumes "valid_refs tr h"
  shows "process_point c tr p h =
     bind_err (point_target tr p (length h)) (write_back c (h @ [default_result]))"
proof (cases "point_target tr p (length h)")
  case (Inl e)
  then show ?thesis
    by (auto simp: process_point_def point_target_def Let_def bind_err_def split: sum.splits)
next
  case (Inr tp)
  obtain t pid where tp: "tp = (t, pid)" by (cases tp)
  from Inr tp obtain key found where key: "test_case_id p = Inr key"
    and found: "dict_get tr key = Inr found" and pid: "getitem p ''id'' = Inr pid"
    and t: "t = (case found of Some a \<Rightarrow> a | None \<Rightarrow> length h)"
    by (auto simp: point_target_def bind_err_def split: sum.splits)
  have t1: "t < length (h @ [default_result])"
    using point_target_bound [OF Inr [unfolded tp] assms] by simp
  show ?thesis
    unfolding Inr tp bind_err_simps write_back_eq [OF t1, of pid c, symmetric]
    unfolding process_point_def key found pid bind_err_simps Let_def t [symmetric]
      default_result_def ..
qed

lemma process_point_Inr:
  assumes "process_point c tr p h = Inr (a, h', c')"
    and "valid_refs tr h"
  shows "\<exists>pid oc.
      getitem p ''id'' = Inr pid
    \<and> a = (case lookup_point tr p of Some b \<Rightarrow> b | None \<Rightarrow> length h)
    \<and> a < Suc (length h)
    \<and> map_of ((h @ [default_result]) ! a) ''outcome'' = Some oc
    \<and> h' = (h @ [default_result])[a := stamp pid ((h @ [default_result]) ! a)]
    \<and> c' = (if oc = JStr ''Passed'' then c else c\<lparr>is_failure := True\<rparr>)"
proof -
  from assms(1) obtain t pid where tp: "point_target tr p (length h) = Inr (t, pid)"
    and wb: "write_back c (h @ [default_result]) (t, pid) = Inr (a, h', c')"
    unfolding process_point_alt [OF assms(2)]
    by (cases "point_target tr p (length h)") auto
  from wb obtain oc where "map_of ((h @ [default_result]) ! t) ''outcome'' = Some oc"
    and "a = t" and "h' = (h @ [default_result])[t := stamp pid ((h @ [default_result]) ! t)]"
    and "c' = (if oc = JStr ''Passed'' then c else c\<lparr>is_failure := True\<rparr>)"
    by (auto simp: write_back_def split: option.splits)
  with point_target_Inr [OF tp] point_target_bound [OF tp assms(2)]
  show ?thesis by blast
qed

lemma settle_again:
  assumes "map_of d = map_of (stamp pid0 d0)"
  shows "map_of (stamp pid d) = map_of (stamp pid d0)"
proof
  fix k
  have "map_of d k' = map_of (stamp pid0 d0) k'" for k'
    using assms by simp
  then show "map_of (stamp pid d) k = map_of (stamp pid d0) k"
    by (simp add: map_of_stamp split: option.splits)
qed

lemma settled_failed: "settled d0 d \<Longrightarrow> failed d = failed d0"
  by (auto simp: settled_def failed_def map_of_stamp)

lemma settled_stamp: "settled d0 d \<Longrightarrow> settled d0 (stamp pid d)"
  unfolding settled_def using settle_again by blast

lemma settled_stamp_self: "settled d (stamp pid d)"
  unfolding settled_def by blast

lemma valid_refs_mono:
  "valid_refs tr h0 \<Longrightarrow> length h0 \<le> length h \<Longrightarrow> valid_refs tr h"
  by (auto simp: valid_refs_def list_all_iff)

lemma failed_stamp: "failed (stamp pid d) = failed d"
  by (simp add: failed_def map_of_stamp)

lemma merge_inv_init: "merge_inv h c ([], h, c)"
  by (simp add: merge_inv_def input_record_def)

lemma merge_inv_step:
  assumes inv: "merge_inv h0 c0 (acc, h, c)"
    and valid: "valid_refs tr h0"
    and step: "process_point c tr p h = Inr (a, h1, c1)"
  shows "merge_inv h0 c0 (acc @ [a], h1, c1)"
proof -
  from inv have len: "length h0 \<le> length h"
    and cells: "\<And>b. b < length h \<Longrightarrow>
        h ! b = input_record h0 b \<or> settled (input_record h0 b) (h ! b)"
    and accs: "\<And>b. b \<in> set acc \<Longrightarrow> b < length h \<and> settled (input_record h0 b) (h ! b)"
    and flag: "is_failure c \<longleftrightarrow> is_failure c0 \<or> (\<exists>a \<in> set acc. failed (h ! a))"
    by (simp_all add: merge_inv_def)
  define hx where "hx = h @ [default_result]"
  from process_point_Inr [OF step valid_refs_mono [OF valid len]]
  obtain pid oc where a: "a < Suc (length h)"
    and oc: "map_of (hx ! a) ''outcome'' = Some oc"
    and h1: "h1 = hx[a := stamp pid (hx ! a)]"
    and c1: "c1 = (if oc = JStr ''Passed'' then c else c\<lparr>is_failure := True\<rparr>)"
    unfolding hx_def by blast
  have lx: "length hx = Suc (length h)" by (simp add: hx_def)
  have hx_old: "hx ! b = h ! b" if "b < length h" for b
    using that by (simp add: hx_def nth_append)
  have hx_new: "hx ! length h = default_result"
    by (simp add: hx_def)
  have cellsx: "hx ! b = input_record h0 b \<or> settled (input_record h0 b) (hx ! b)"
    if "b < Suc (length h)" for b
  proof (cases "b < length h")
    case True
    then show ?thesis using cells [of b] by (simp add: hx_old)
  next
    case False
    with that have "b = length h" by simp
    then show ?thesis using len by (simp add: hx_new input_record_def)
  qed
  have at_a: "settled (input_record h0 a) (h1 ! a)"
    using cellsx [OF a] a
    by (auto simp: h1 lx intro: settled_stamp settled_stamp_self)
  have off_a: "h1 ! b = hx ! b" if "b \<noteq> a" for b
    using that by (simp add: h1)
  have len1: "length h1 = Suc (length h)" by (simp add: h1 lx)
  have c1': "\<forall>b < length h1. h1 ! b = input_record h0 b \<or> settled (input_record h0 b) (h1 ! b)"
  proof (intro allI impI)
    fix b assume "b < length h1"
    then have b: "b < Suc (length h)" by (simp add: len1)
    show "h1 ! b = input_record h0 b \<or> settled (input_record h0 b) (h1 ! b)"
      using at_a off_a [of b] cellsx [OF b] by (cases "b = a") auto
  qed
  have c2': "\<forall>b \<in> set (acc @ [a]). b < length h1 \<and> settled (input_record h0 b) (h1 ! b)"
  proof
    fix b assume "b \<in> set (acc @ [a])"
    then consider "b = a" | "b \<noteq> a" "b \<in> set acc" by auto
    then show "b < length h1 \<and> settled (input_record h0 b) (h1 ! b)"
    proof cases
      case 1
      then show ?thesis using at_a a by (simp add: len1)
    next
      case 2
      then show ?thesis using accs [of b] off_a [of b] by (simp add: len1 hx_old)
    qed
  qed
  have failed_same: "failed (h1 ! b) = failed (hx ! b)" if "b < Suc (length h)" for b
    using that by (cases "b = a") (simp_all add: h1 lx failed_stamp)
  have failed_a: "failed (h1 ! a) \<longleftrightarrow> oc \<noteq> JStr ''Passed''"
    using failed_same [OF a] oc by (simp add: failed_def)
  have failed_acc: "failed (h1 ! b) = failed (h ! b)" if "b \<in> set acc" for b
    using accs [OF that] failed_same [of b] by (simp add: hx_old)
  have c3': "is_failure c1 \<longleftrightarrow> is_failure c0 \<or> (\<exists>b \<in> set (acc @ [a]). failed (h1 ! b))"
    using flag failed_a failed_acc by (auto simp: c1)
  show ?thesis
    unfolding merge_inv_def using len c1' c2' c3' by (simp add: len1)
qed

lemma process_points_inv:
  assumes "merge_inv h0 c0 (acc, h, c)" and "valid_refs tr h0"
    and "process_points c tr ps h acc = Inr s"
  shows "merge_inv h0 c0 s"
  using assms
proof (induction ps arbitrary: acc h c)
  case Nil
  then show ?case by simp
next
  case (Cons p ps)
  from Cons.prems(3) obtain a h1 c1 where step: "process_point c tr p h = Inr (a, h1, c1)"
    and rest: "process_points c1 tr ps h1 (acc @ [a]) = Inr s"
    by (cases "process_point c tr p h") auto
  show ?case
    by (rule Cons.IH [OF merge_inv_step [OF Cons.prems(1) Cons.prems(2) step] Cons.prems(2) rest])
qed

lemma process_test_results_points:
  assumes "process_test_results c r tr h = Inr s"
  obtains points where "response_value r = Inr points"
    and "process_points c tr points h [] = Inr s"
  using assms by (cases "response_value r") (simp_all add: process_test_results_def)

lemma process_test_results_inv:
  assumes "process_test_results c r tr h = Inr s" and "valid_refs tr h"
  shows "merge_inv h c s"
proof -
  from assms(1) obtain points where "process_points c tr points h [] = Inr s"
    by (rule process_test_results_points)
  then show ?thesis
    by (rule process_points_inv [OF merge_inv_init assms(2)])
qed

lemma target_pair:
  "target tr (n, p) = (case lookup_point tr p of Some a \<Rightarrow> a | None \<Rightarrow> n)"
  by (cases "lookup_point tr p") (simp_all add: target_def)

lemma process_points_payload:
  assumes "process_points c tr ps h acc = Inr (payload, h', c')" and "valid_refs tr h"
  shows "length h' = length h + length ps
       \<and> payload = acc @ map (target tr) (enumerate (length h) ps)"
  using assms
proof (induction ps arbitrary: acc h c)
  case Nil
  then show ?case by simp
next
  case (Cons p ps)
  from Cons.prems(1) obtain a h1 c1 where step: "process_point c tr p h = Inr (a, h1, c1)"
    and rest: "process_points c1 tr ps h1 (acc @ [a]) = Inr (payload, h', c')"
    by (cases "process_point c tr p h") auto
  from process_point_Inr [OF step Cons.prems(2)]
  have a: "a = target tr (length h, p)" and len: "length h1 = Suc (length h)"
    by (auto simp: target_pair)
  have "valid_refs tr h1"
    using Cons.prems(2) len by (auto intro: valid_refs_mono)
  from Cons.IH [OF rest this] show ?case
    by (simp add: a len)
qed

lemma process_points_untouched:
  assumes "process_points c tr ps h acc = Inr (payload, h', c')" and "valid_refs tr h"
    and "b < length h" and "\<forall>p \<in> set ps. lookup_point tr p \<noteq> Some b"
  shows "h' ! b = h ! b"
  using assms
proof (induction ps arbitrary: acc h c)
  case Nil
  then show ?case by simp
next
  case (Cons p ps)
  from Cons.prems(1) obtain a h1 c1 where step: "process_point c tr p h = Inr (a, h1, c1)"
    and rest: "process_points c1 tr ps h1 (acc @ [a]) = Inr (payload, h', c')"
    by (cases "process_point c tr p h") auto
  from process_point_Inr [OF step Cons.prems(2)] obtain pid
    where a: "a = (case lookup_point tr p of Some b \<Rightarrow> b | None \<Rightarrow> length h)"
      and h1: "h1 = (h @ [default_result])[a := stamp pid ((h @ [default_result]) ! a)]"
    by blast
  have ab: "a \<noteq> b"
    using Cons.prems(3,4) by (auto simp: a split: option.splits)
  have len: "length h1 = Suc (length h)" by (simp add: h1)
  have same: "h1 ! b = h ! b"
    using ab Cons.prems(3) by (simp add: h1 nth_append)
  have "valid_refs tr h1"
    using Cons.prems(2) len by (auto intro: valid_refs_mono)
  from Cons.IH [OF rest this] Cons.prems(3,4) len same show ?case
    by simp
qed

lemma process_points_last_writer:
  assumes "process_points c tr ps h acc = Inr (payload, h', c')" and "valid_refs tr h"
    and "j < length ps"
    and "\<forall>k. j < k \<and> k < length ps \<longrightarrow>
           lookup_point tr (ps ! k) \<noteq> Some (target tr (length h + j, ps ! j))"
  shows "\<exists>pid d. getitem (ps ! j) ''id'' = Inr pid
           \<and> h' ! target tr (length h + j, ps ! j) = stamp pid d
           \<and> (lookup_point tr (ps ! j) = None \<longrightarrow> d = default_result)"
  using assms
proof (induction ps arbitrary: acc h c j)
  case Nil
  then show ?case by simp
next
  case (Cons p ps)
  from Cons.prems(1) obtain a h1 c1 where step: "process_point c tr p h = Inr (a, h1, c1)"
    and rest: "process_points c1 tr ps h1 (acc @ [a]) = Inr (payload, h', c')"
    by (cases "process_point c tr p h") auto
  from process_point_Inr [OF step Cons.prems(2)] obtain pid0
    where pid0: "getitem p ''id'' = Inr pid0"
      and a: "a = target tr (length h, p)" and a_lt: "a < Suc (length h)"
      and h1: "h1 = (h @ [default_result])[a := stamp pid0 ((h @ [default_result]) ! a)]"
    by (auto simp: target_pair)
  have len: "length h1 = Suc (length h)" by (simp add: h1)
  have valid1: "valid_refs tr h1"
    using Cons.prems(2) len by (auto intro: valid_refs_mono)
  show ?case
  proof (cases j)
    case 0
    have later: "\<forall>q \<in> set ps. lookup_point tr q \<noteq> Some a"
    proof
      fix q assume "q \<in> set ps"
      then obtain k where "k < length ps" "ps ! k = q"
        by (auto simp: in_set_conv_nth)
      then show "lookup_point tr q \<noteq> Some a"
        using Cons.prems(4) [rule_format, of "Suc k"] 0 by (auto simp: a)
    qed
    have "h' ! a = h1 ! a"
      using process_points_untouched [OF rest valid1 _ later] a_lt len by simp
    also have "\<dots> = stamp pid0 ((h @ [default_result]) ! a)"
      using a_lt by (simp add: h1)
    finally have cell: "h' ! a = stamp pid0 ((h @ [default_result]) ! a)" .
    have "lookup_point tr p = None \<Longrightarrow> (h @ [default_result]) ! a = default_result"
      by (simp add: a target_pair)
    with cell 0 pid0 show ?thesis
      by (auto simp: a)
  next
    case (Suc j')
    have "\<exists>pid d. getitem (ps ! j') ''id'' = Inr pid
           \<and> h' ! target tr (length h1 + j', ps ! j') = stamp pid d
           \<and> (lookup_point tr (ps ! j') = None \<longrightarrow> d = default_result)"
    proof (rule Cons.IH [OF rest valid1])
      show "j' < length ps" using Cons.prems(3) Suc by simp
      show "\<forall>k. j' < k \<and> k < length ps \<longrightarrow>
           lookup_point tr (ps ! k) \<noteq> Some (target tr (length h1 + j', ps ! j'))"
      proof (intro allI impI)
        fix k assume "j' < k \<and> k < length ps"
        then show "lookup_point tr (ps ! k) \<noteq> Some (target tr (length h1 + j', ps ! j'))"
          using Cons.prems(4) [rule_format, of "Suc k"] Suc by (simp add: len)
      qed
    qed
    then show ?thesis by (simp add: Suc len)
  qed
qed

lemma process_test_results_eq:
  "response_value r = Inr points \<Longrightarrow>
   process_test_results c r tr h = process_points c tr points h []"
  by (simp add: process_test_results_def)

lemma lookup_point_key:
  "test_case_id p = Inr (JStr k) \<Longrightarrow> lookup_point tr p = map_of tr k"
  by (simp add: lookup_point_def)

lemma payload_entry:
  assumes resp: "response_value r = Inr points"
    and run: "process_test_results c r tr h = Inr (payload, h', c')"
    and valid: "valid_refs tr h"
    and i: "i < length points"
  shows "payload ! i = target tr (length h + i, points ! i)"
    and "payload ! i \<in> set payload"
    and "settled (local_result tr h (points ! i)) (h' ! (payload ! i))"
proof -
  from run have run': "process_points c tr points h [] = Inr (payload, h', c')"
    by (simp add: process_test_results_eq [OF resp])
  from process_points_payload [OF run' valid]
  have pl: "payload = map (target tr) (enumerate (length h) points)"
    by simp
  show at: "payload ! i = target tr (length h + i, points ! i)"
    using i by (simp add: pl nth_enumerate_eq)
  have len: "length payload = length points"
    by (simp add: pl)
  show mem: "payload ! i \<in> set payload"
    using i len by simp
  from process_test_results_inv [OF run valid] mem
  have st: "settled (input_record h (payload ! i)) (h' ! (payload ! i))"
    by (simp add: merge_inv_def)
  have "input_record h (payload ! i) = local_result tr h (points ! i)"
  proof (cases "lookup_point tr (points ! i)")
    case None
    then show ?thesis
      by (simp add: at target_pair input_record_def local_result_def)
  next
    case (Some a)
    with valid_refs_lookup [OF valid Some] show ?thesis
      by (simp add: at target_pair input_record_def local_result_def)
  qed
  with st show "settled (local_result tr h (points ! i)) (h' ! (payload ! i))"
    by simp
qed

lemma payload_length:
  assumes "response_value r = Inr points"
    and "process_test_results c r tr h = Inr (payload, h', c')"
    and "valid_refs tr h"
  shows "length payload = length points"
  using process_points_payload [of c tr points h "[]" payload h' c'] assms
  by (simp add: process_test_results_eq)

lemma held_under_lookup:
  assumes "held_under tr k a" and "lookup_point tr p = Some a"
  shows "test_case_id p = Inr (JStr k)"
proof -
  from assms(2) obtain k' where k': "test_case_id p = Inr (JStr k')" "map_of tr k' = Some a"
    by (auto simp: lookup_point_def split: sum.splits json.splits)
  from k'(2) have "(k', a) \<in> set tr" by (rule map_of_SomeD)
  with assms(1) have "k' = k"
    by (auto simp: held_under_def list_all_iff)
  with k'(1) show ?thesis by simp
qed

lemma dict_get_None_lookup:
  "test_case_id p = Inr key \<Longrightarrow> dict_get tr key = Inr None \<Longrightarrow> lookup_point tr p = None"
  by (rule dict_get_lookup)

lemma keep_cell_simps [simp]:
  "keep_cell b d (Inl e) = Inl e"
  "keep_cell b d (Inr (x, h, c)) = Inr (x, h[b := d], c)"
  by (simp_all add: keep_cell_def)

lemma write_back_frame:
  assumes "t \<noteq> b"
  shows "write_back c (hx[b := d]) (t, pid) = keep_cell b d (write_back c hx (t, pid))"
  using assms
  by (cases "map_of (hx ! t) ''outcome''") (simp_all add: write_back_def list_update_swap)

lemma process_point_frame:
  assumes valid: "valid_refs tr h" and b: "b < length h"
    and other: "lookup_point tr p \<noteq> Some b"
  shows "process_point c tr p (h[b := d]) = keep_cell b d (process_point c tr p h)"
proof -
  have valid': "valid_refs tr (h[b := d])"
    using valid by (simp add: valid_refs_def)
  have hx: "h[b := d] @ [default_result] = (h @ [default_result])[b := d]"
    using b by (simp add: list_update_append1)
  show ?thesis
  proof (cases "point_target tr p (length h)")
    case (Inl e)
    then show ?thesis
      by (simp add: process_point_alt [OF valid] process_point_alt [OF valid'])
  next
    case (Inr tp)
    obtain t pid where tp: "tp = (t, pid)" by (cases tp)
    have "t \<noteq> b"
      using point_target_Inr(2) [OF Inr [unfolded tp]] other b
      by (auto split: option.splits)
    then show ?thesis
      by (simp add: process_point_alt [OF valid] process_point_alt [OF valid'] Inr tp hx
          write_back_frame)
  qed
qed

lemma process_points_frame:
  assumes "valid_refs tr h" and "b < length h"
    and "\<forall>p \<in> set ps. lookup_point tr p \<noteq> Some b"
  shows "process_points c tr ps (h[b := d]) acc = keep_cell b d (process_points c tr ps h acc)"
  using assms
proof (induction ps arbitrary: acc h c)
  case Nil
  then show ?case by simp
next
  case (Cons p ps)
  have step: "process_point c tr p (h[b := d]) = keep_cell b d (process_point c tr p h)"
    using Cons.prems by (simp add: process_point_frame)
  show ?case
  proof (cases "process_point c tr p h")
    case (Inl e)
    then show ?thesis by (simp add: step)
  next
    case (Inr s)
    obtain a h1 c1 where s: "s = (a, h1, c1)" by (cases s)
    from process_point_Inr [OF Inr [unfolded s] Cons.prems(1)]
    have len: "length h1 = Suc (length h)" by auto
    have "valid_refs tr h1" "b < length h1"
      using Cons.prems(1,2) len by (auto intro: valid_refs_mono)
    from Cons.IH [OF this] Cons.prems(3) show ?thesis
      by (simp add: step Inr s)
  qed
qed

lemma lookup_point_mem:
  "lookup_point tr p = Some a \<Longrightarrow> \<exists>k. (k, a) \<in> set tr"
  by (auto simp: lookup_point_def split: sum.splits json.splits dest: map_of_SomeD)

lemma point_target_total:
  assumes "point_ok p"
  shows "\<exists>pid. point_target tr p n = Inr (target tr (n, p), pid)"
proof -
  from assms obtain key pid where key: "test_case_id p = Inr key" "hashable key"
    and pid: "getitem p ''id'' = Inr pid"
    by (cases "test_case_id p"; cases "getitem p ''id''") (auto simp: point_ok_def)
  from key(2) obtain found where found: "dict_get tr key = Inr found"
    by (cases key) (auto simp: dict_get_def hashable_def)
  have "lookup_point tr p = found"
    using key(1) found by (rule dict_get_lookup)
  then show ?thesis
    by (simp add: point_target_def key found pid target_pair)
qed

lemma process_point_total:
  assumes valid: "valid_refs tr h" and rec: "records_ok tr h" and ok: "point_ok p"
  shows "\<exists>a h1 c1. process_point c tr p h = Inr (a, h1, c1) \<and> records_ok tr h1"
proof -
  define hx where "hx = h @ [default_result]"
  define t where "t = target tr (length h, p)"
  from point_target_total [OF ok] obtain pid
    where tp: "point_target tr p (length h) = Inr (t, pid)"
    unfolding t_def by blast
  have outcomes: "map_of (hx ! a) ''outcome'' \<noteq> None"
    if "(\<exists>k. (k, a) \<in> set tr) \<or> a = length h" for a
  proof -
    from that consider k where "(k, a) \<in> set tr" | "a = length h" by blast
    then show ?thesis
    proof cases
      case 1
      with valid rec have "a < length h" "map_of (h ! a) ''outcome'' \<noteq> None"
        by (auto simp: valid_refs_def records_ok_def list_all_iff)
      then show ?thesis by (simp add: hx_def nth_append)
    next
      case 2
      then show ?thesis by (simp add: hx_def default_result_def)
    qed
  qed
  have t_cases: "(\<exists>k. (k, t) \<in> set tr) \<or> t = length h"
    using lookup_point_mem [of tr p]
    by (cases "lookup_point tr p") (auto simp: t_def target_pair)
  from outcomes [OF t_cases] obtain oc where oc: "map_of (hx ! t) ''outcome'' = Some oc"
    by blast
  define h1 where "h1 = hx[t := stamp pid (hx ! t)]"
  have run: "process_point c tr p h =
      Inr (t, h1, if oc = JStr ''Passed'' then c else c\<lparr>is_failure := True\<rparr>)"
    by (simp add: process_point_alt [OF valid] tp write_back_def oc [unfolded hx_def]
        hx_def h1_def)
  have "records_ok tr h1"
    unfolding records_ok_def list_all_iff
  proof
    fix ka assume ka: "ka \<in> set tr"
    then have "\<exists>k. (k, snd ka) \<in> set tr"
      by (intro exI [of _ "fst ka"]) simp
    from outcomes [OF disjI1 [OF this]]
    have old: "map_of (hx ! snd ka) ''outcome'' \<noteq> None" .
    have "snd ka < length hx"
      using valid ka by (auto simp: valid_refs_def list_all_iff hx_def)
    then have "map_of (h1 ! snd ka) ''outcome'' = map_of (hx ! snd ka) ''outcome''"
      by (cases "snd ka = t") (simp_all add: h1_def map_of_stamp)
    with old show "map_of (h1 ! snd ka) ''outcome'' \<noteq> None" by simp
  qed
  with run show ?thesis by blast
qed

lemma process_points_total:
  assumes "valid_refs tr h" and "records_ok tr h" and "list_all point_ok ps"
  shows "\<exists>s. process_points c tr ps h acc = Inr s"
  using assms
proof (induction ps arbitrary: acc h c)
  case Nil
  then show ?case by simp
next
  case (Cons p ps)
  from Cons.prems(3) have ok: "point_ok p" and oks: "list_all point_ok ps"
    by simp_all
  from process_point_total [OF Cons.prems(1,2) ok]
  obtain a h1 c1 where step: "process_point c tr p h = Inr (a, h1, c1)"
    and rec1: "records_ok tr h1"
    by blast
  from process_point_Inr [OF step Cons.prems(1)]
  have "length h1 = Suc (length h)" by auto
  then have "valid_refs tr h1"
    using Cons.prems(1) by (auto intro: valid_refs_mono)
  from Cons.IH [OF this rec1 oks] show ?case
    by (simp add: step)
qed

lemma all_matched_point_ok:
  assumes "lookup_point tr p \<noteq> None" and "\<not> isl (getitem p ''id'')"
  shows "point_ok p"
  using assms
  by (auto simp: point_ok_def lookup_point_def hashable_def split: sum.splits json.splits)

lemma main_Inr:
  assumes "main fmt pn sn tr h srv t1 t2 = Inr (run_body, results_body, run_state)"
  shows "\<exists>payload h' c'.
      process_test_results new_client (on_results srv) tr h = Inr (payload, h', c')
    \<and> results_body = map (\<lambda>a. h' ! a) payload
    \<and> run_state = fst (complete_test_run c' t2 (on_complete srv))"
  using assms unfolding main_def Let_def
  by (auto simp: bind_err_Inr_iff split_beta post_test_results_def split: if_splits)

lemma main_run_state:
  assumes "main fmt pn sn tr h srv t1 t2 = Inr (run_body, results_body, run_state)"
    and "valid_refs tr h"
  shows "run_state =
    [(''state'', JStr (if list_ex failed results_body then ''NeedsInvestigation''
                       else ''Completed'')),
     (''completedDate'', JStr t2)]"
proof -
  from assms(1) obtain payload h' c' where
    run: "process_test_results new_client (on_results srv) tr h = Inr (payload, h', c')"
    and body: "results_body = map (\<lambda>a. h' ! a) payload"
    and state: "run_state = fst (complete_test_run c' t2 (on_complete srv))"
    using main_Inr by blast
  from process_test_results_inv [OF run assms(2)]
  have "is_failure c' \<longleftrightarrow> (\<exists>a \<in> set payload. failed (h' ! a))"
    by (simp add: merge_inv_def new_client_def)
  then have "is_failure c' \<longleftrightarrow> list_ex failed results_body"
    by (simp add: body list_ex_iff)
  then show ?thesis
    by (simp add: state complete_test_run_def)
qed

lemma listing_value: "response_value (listing items) = Inr items"
  by (simp add: listing_def response_value_def raise_for_status_def response_json_def
      getitem_def iter_def)

lemmas run_defs = process_test_results_def listing_value process_point_def
  test_case_id_def getitem_def dict_get_def Let_def point_def

lemma ex_valid: "valid_refs ex_results ex_heap"
  by (simp add: valid_refs_def ex_results_def ex_heap_def)

lemma ex_run:
  "process_test_results new_client (listing ex_points) ex_results ex_heap
     = Inr ([0, 3, 0], ex_merged, \<lparr>is_failure = True\<rparr>)"
  by (simp add: run_defs ex_points_def ex_results_def ex_heap_def ex_merged_def new_client_def)

lemma ok_valid: "valid_refs ok_results ok_heap"
  by (simp add: valid_refs_def ok_results_def ok_heap_def)

lemma ok_run:
  "process_test_results new_client (listing [point 55 ''123'']) ok_results ok_heap
     = Inr ([0],
         [[(''outcome'', JStr ''Passed''), (''id'', JInt 55), (''state'', JStr ''Completed''),
           (''priority'', JInt 2)],
          [(''outcome'', JStr ''NotExecuted'')]],
         new_client)"
  by (simp add: run_defs ok_results_def ok_heap_def)

lemma ex_points_nth:
  "ex_points ! 0 = point 10 ''123''" "ex_points ! 1 = point 77 ''999''"
  "ex_points ! 2 = point 11 ''123''" "length ex_points = 3"
  by (simp_all add: ex_points_def)

lemma test_case_id_point: "test_case_id (point i k) = Inr (JStr k)"
  by (simp add: test_case_id_def point_def getitem_def)

lemma ex_main:
  "map_sum id snd (main (\<lambda>v. ''1'') ''A'' ''B'' ex_results ex_heap ex_replies ''t1'' ''t2'')
     = Inr ([ex_merged ! 0, ex_merged ! 3, ex_merged ! 0],
            [(''state'', JStr ''NeedsInvestigation''), (''completedDate'', JStr ''t2'')])"
proof -
  have plan: "get_test_plan_id plans_AB ''A'' = Inr (JInt 1)"
    by (simp add: get_test_plan_id_def plans_AB_value getitem_def)
  have suite: "get_test_suite_id (\<lambda>v. ''1'') plans_AB (JInt 1) ''B'' = Inr (JInt 2)"
    by (simp add: get_test_suite_id_def plans_AB_value getitem_def)
  have pts: "get_test_points (listing [JObj [(''id'', JInt 7)]]) = Inr [JInt 7]"
    by (simp add: get_test_points_def listing_value getitem_def)
  have created: "snd (create_test_run ''A'' ''B'' (JInt 1) [JInt 7] ''t1'' created_42)
      = Inr (JInt 42)"
    by (simp add: create_test_run_def created_42_def raise_for_status_def response_json_def
        getitem_def)
  have posted: "post_test_results ex_merged [0, 3, 0] ok_response
      = ([ex_merged ! 0, ex_merged ! 3, ex_merged ! 0], Inr ())"
    by (simp add: post_test_results_def ok_response_def)
  have completed: "complete_test_run \<lparr>is_failure = True\<rparr> ''t2'' ok_response
      = ([(''state'', JStr ''NeedsInvestigation''), (''completedDate'', JStr ''t2'')], Inr ())"
    by (simp add: complete_test_run_def ok_response_def)
  show ?thesis
    unfolding main_def Let_def
    by (simp add: ex_replies_def plan suite pts created ex_run posted completed split_beta)
qed

lemma um_run:
  "process_test_results new_client (listing [point 77 ''999'']) ok_results ok_heap
     = Inr ([1],
         [[(''outcome'', JStr ''Passed'')],
          [(''outcome'', JStr ''NotExecuted''), (''id'', JInt 77),
           (''state'', JStr ''Completed''), (''priority'', JInt 2),
           (''failureType'', JStr ''New Issue'')]],
         \<lparr>is_failure = True\<rparr>)"
  by (simp add: run_defs ok_results_def ok_heap_def new_client_def)

subsection \<open>The statements\<close>

text \<open>
  C1. After \<^verbatim>\<open>process_test_results\<close> the failure flag is set exactly when it was set
  before or a record of the returned payload has an outcome other than \<^verbatim>\<open>"Passed"\<close>; so
  one such record sets it, and a flag that was set stays set. \<^verbatim>\<open>complete_test_run\<close>
  sends the state \<^verbatim>\<open>"NeedsInvestigation"\<close> when the flag is set and \<^verbatim>\<open>"Completed"\<close> when
  it is not. In a run of the pipeline, which starts from a new client and hands the
  client of the merge to the completion, the state sent is \<^verbatim>\<open>"NeedsInvestigation"\<close>
  exactly when a submitted record has an outcome other than \<^verbatim>\<open>"Passed"\<close>.
\<close>

theorem failure_flag_decides_run_state:
  assumes "valid_refs tr h"
  shows "(\<forall>payload h' c'. process_test_results c r tr h = Inr (payload, h', c') \<longrightarrow>
            (is_failure c' \<longleftrightarrow> is_failure c \<or> (\<exists>a \<in> set payload. failed (h' ! a)))
          \<and> fst (complete_test_run c' now r') =
              [(''state'', JStr (if is_failure c' then ''NeedsInvestigation''
                                 else ''Completed'')),
               (''completedDate'', JStr now)])
    \<and> (\<forall>run_body results_body run_state.
          main fmt pn sn tr h srv t1 t2 = Inr (run_body, results_body, run_state) \<longrightarrow>
          run_state =
            [(''state'', JStr (if list_ex failed results_body then ''NeedsInvestigation''
                               else ''Completed'')),
             (''completedDate'', JStr t2)])"
proof (intro conjI allI impI)
  fix payload h' c'
  assume "process_test_results c r tr h = Inr (payload, h', c')"
  from process_test_results_inv [OF this assms]
  show "is_failure c' \<longleftrightarrow> is_failure c \<or> (\<exists>a \<in> set payload. failed (h' ! a))"
    by (simp add: merge_inv_def)
  show "fst (complete_test_run c' now r') =
              [(''state'', JStr (if is_failure c' then ''NeedsInvestigation''
                                 else ''Completed'')),
               (''completedDate'', JStr now)]"
    by (simp add: complete_test_run_def)
next
  fix run_body results_body run_state
  assume "main fmt pn sn tr h srv t1 t2 = Inr (run_body, results_body, run_state)"
  then show "run_state =
            [(''state'', JStr (if list_ex failed results_body then ''NeedsInvestigation''
                               else ''Completed'')),
             (''completedDate'', JStr t2)]"
    using assms by (rule main_run_state)
qed

theorem failure_flag_decides_run_state_witness:
  "valid_refs ex_results ex_heap
   \<and> process_test_results new_client (listing ex_points) ex_results ex_heap
       = Inr ([0, 3, 0], ex_merged, \<lparr>is_failure = True\<rparr>)
   \<and> failed (ex_merged ! 3)
   \<and> fst (complete_test_run \<lparr>is_failure = True\<rparr> ''t2'' ok_response)
       = [(''state'', JStr ''NeedsInvestigation''), (''completedDate'', JStr ''t2'')]
   \<and> fst (complete_test_run new_client ''t2'' ok_response)
       = [(''state'', JStr ''Completed''), (''completedDate'', JStr ''t2'')]
   \<and> map_sum id snd (main (\<lambda>v. ''1'') ''A'' ''B'' ex_results ex_heap ex_replies ''t1'' ''t2'')
       = Inr ([ex_merged ! 0, ex_merged ! 3, ex_merged ! 0],
              [(''state'', JStr ''NeedsInvestigation''), (''completedDate'', JStr ''t2'')])"
proof -
  note t = failure_flag_decides_run_state [OF ex_valid, of new_client "listing ex_points"
      "''t2''" ok_response "\<lambda>v. ''1''" "''A''" "''B''" ex_replies "''t1''" "''t2''"]
  from t ex_run have
    "fst (complete_test_run \<lparr>is_failure = True\<rparr> ''t2'' ok_response) =
       [(''state'', JStr (if is_failure \<lparr>is_failure = True\<rparr> then ''NeedsInvestigation''
                          else ''Completed'')),
        (''completedDate'', JStr ''t2'')]"
    by blast
  then have c1: "fst (complete_test_run \<lparr>is_failure = True\<rparr> ''t2'' ok_response)
       = [(''state'', JStr ''NeedsInvestigation''), (''completedDate'', JStr ''t2'')]"
    by simp
  have c2: "fst (complete_test_run new_client ''t2'' ok_response)
       = [(''state'', JStr ''Completed''), (''completedDate'', JStr ''t2'')]"
    by (simp add: complete_test_run_def new_client_def)
  have f: "failed (ex_merged ! 3)"
    by (simp add: failed_def ex_merged_def)
  from ex_valid ex_run f c1 c2 ex_main show ?thesis
    by (intro conjI)
qed

text \<open>
  C2. The payload returned by \<^verbatim>\<open>process_test_results\<close> has one record for each
  placeholder, and each of them has state \<^verbatim>\<open>"Completed"\<close> and a priority: the priority
  of the input record of its placeholder when that record had one, and 2 otherwise.
\<close>

theorem merged_state_and_priority:
  assumes "response_value r = Inr points"
    and "process_test_results c r tr h = Inr (payload, h', c')"
    and "valid_refs tr h"
  shows "length payload = length points
    \<and> (\<forall>i < length points.
          map_of (h' ! (payload ! i)) ''state'' = Some (JStr ''Completed'')
        \<and> map_of (h' ! (payload ! i)) ''priority'' =
            Some (case map_of (local_result tr h (points ! i)) ''priority'' of
                    Some v \<Rightarrow> v
                  | None \<Rightarrow> JInt 2))"
proof (intro conjI allI impI)
  show "length payload = length points"
    using assms by (rule payload_length)
next
  fix i assume "i < length points"
  from payload_entry(3) [OF assms this]
  obtain pid where m: "map_of (h' ! (payload ! i)) = map_of (stamp pid (local_result tr h (points ! i)))"
    by (auto simp: settled_def)
  show "map_of (h' ! (payload ! i)) ''state'' = Some (JStr ''Completed'')"
    by (simp add: m map_of_stamp)
  show "map_of (h' ! (payload ! i)) ''priority'' =
            Some (case map_of (local_result tr h (points ! i)) ''priority'' of
                    Some v \<Rightarrow> v
                  | None \<Rightarrow> JInt 2)"
    by (simp add: m map_of_stamp)
qed

theorem merged_state_and_priority_witness:
  "valid_refs ex_results ex_heap
   \<and> process_test_results new_client (listing ex_points) ex_results ex_heap
       = Inr ([0, 3, 0], ex_merged, \<lparr>is_failure = True\<rparr>)
   \<and> map_of (ex_merged ! 0) ''state'' = Some (JStr ''Completed'')
   \<and> map_of (ex_merged ! 0) ''priority'' = Some (JInt 1)
   \<and> map_of (ex_merged ! 3) ''state'' = Some (JStr ''Completed'')
   \<and> map_of (ex_merged ! 3) ''priority'' = Some (JInt 2)"
proof -
  note t = merged_state_and_priority [OF listing_value ex_run ex_valid]
  have i0: "0 < length ex_points" and i1: "1 < length ex_points"
    by (simp_all add: ex_points_nth)
  show ?thesis
    using t [THEN conjunct2, rule_format, OF i0] t [THEN conjunct2, rule_format, OF i1]
      ex_valid ex_run
    by (simp add: local_result_def lookup_point_def test_case_id_point ex_points_def
        ex_results_def ex_heap_def default_result_def)
qed

text \<open>
  C3. Each record of the returned payload has the outcome of its input record. When
  that outcome is not \<^verbatim>\<open>"Passed"\<close> the record has a \<^verbatim>\<open>failureType\<close>: the one of the
  input record when it had one, \<^verbatim>\<open>"New Issue"\<close> otherwise. When the outcome is
  \<^verbatim>\<open>"Passed"\<close> the \<^verbatim>\<open>failureType\<close> entry is as it was in the input record, so none is
  added.
\<close>

theorem failure_type_of_merged:
  assumes "response_value r = Inr points"
    and "process_test_results c r tr h = Inr (payload, h', c')"
    and "valid_refs tr h"
  shows "\<forall>i < length points.
          map_of (h' ! (payload ! i)) ''outcome''
            = map_of (local_result tr h (points ! i)) ''outcome''
        \<and> map_of (h' ! (payload ! i)) ''failureType'' =
            (if map_of (h' ! (payload ! i)) ''outcome'' = Some (JStr ''Passed'')
             then map_of (local_result tr h (points ! i)) ''failureType''
             else Some (case map_of (local_result tr h (points ! i)) ''failureType'' of
                    Some v \<Rightarrow> v
                  | None \<Rightarrow> JStr ''New Issue''))"
proof (intro conjI allI impI)
  fix i assume i: "i < length points"
  from payload_entry(3) [OF assms this]
  obtain pid where m: "map_of (h' ! (payload ! i)) = map_of (stamp pid (local_result tr h (points ! i)))"
    by (auto simp: settled_def)
  show "map_of (h' ! (payload ! i)) ''outcome''
            = map_of (local_result tr h (points ! i)) ''outcome''"
    by (simp add: m map_of_stamp)
  show "map_of (h' ! (payload ! i)) ''failureType'' =
            (if map_of (h' ! (payload ! i)) ''outcome'' = Some (JStr ''Passed'')
             then map_of (local_result tr h (points ! i)) ''failureType''
             else Some (case map_of (local_result tr h (points ! i)) ''failureType'' of
                    Some v \<Rightarrow> v
                  | None \<Rightarrow> JStr ''New Issue''))"
    by (simp add: m map_of_stamp)
qed

theorem failure_type_of_merged_witness:
  "valid_refs ex_results ex_heap
   \<and> process_test_results new_client (listing ex_points) ex_results ex_heap
       = Inr ([0, 3, 0], ex_merged, \<lparr>is_failure = True\<rparr>)
   \<and> map_of (ex_merged ! 0) ''outcome'' = Some (JStr ''Failed'')
   \<and> map_of (ex_merged ! 0) ''failureType'' = Some (JStr ''New Issue'')
   \<and> map_of (ex_merged ! 3) ''outcome'' = Some (JStr ''NotExecuted'')
   \<and> map_of (ex_merged ! 3) ''failureType'' = Some (JStr ''New Issue'')"
proof -
  note t = failure_type_of_merged [OF listing_value ex_run ex_valid]
  have i0: "0 < length ex_points" and i1: "1 < length ex_points"
    by (simp_all add: ex_points_nth)
  show ?thesis
    using t [rule_format, OF i0] t [rule_format, OF i1] ex_valid ex_run
    by (simp add: local_result_def lookup_point_def test_case_id_point ex_points_def
        ex_results_def ex_heap_def default_result_def)
qed

text \<open>
  C4, amended. When every record of the mapping has outcome \<^verbatim>\<open>"Passed"\<close> and the
  test-case id of every placeholder is a key of the mapping, a merge that starts with
  the flag unset leaves it unset, and \<^verbatim>\<open>complete_test_run\<close> sends the state
  \<^verbatim>\<open>"Completed"\<close>; when moreover every placeholder has an \<^verbatim>\<open>"id"\<close>, the merge returns.
\<close>

theorem all_matched_and_passed_completes:
  assumes "response_value r = Inr points"
    and "valid_refs tr h"
    and "\<not> is_failure c"
    and "all_passed tr h"
    and "all_matched tr points"
  shows "(\<forall>payload h' c'. process_test_results c r tr h = Inr (payload, h', c') \<longrightarrow>
            \<not> is_failure c'
          \<and> fst (complete_test_run c' now r') =
              [(''state'', JStr ''Completed''), (''completedDate'', JStr now)])
    \<and> (list_all (\<lambda>p. \<not> isl (getitem p ''id'')) points \<longrightarrow>
          \<not> isl (process_test_results c r tr h))"
proof (intro conjI allI impI)
  fix payload h' c'
  assume run: "process_test_results c r tr h = Inr (payload, h', c')"
  have "\<not> failed (h' ! a)" if "a \<in> set payload" for a
  proof -
    from that obtain i where i: "i < length payload" "payload ! i = a"
      by (auto simp: in_set_conv_nth)
    then have i': "i < length points"
      using payload_length [OF assms(1) run assms(2)] by simp
    from assms(5) i' obtain a0 where a0: "lookup_point tr (points ! i) = Some a0"
      by (auto simp: all_matched_def list_all_length)
    from lookup_point_mem [OF a0] assms(4) have "\<not> failed (h ! a0)"
      by (auto simp: all_passed_def list_all_iff failed_def)
    with payload_entry(3) [OF assms(1) run assms(2) i'] i(2) a0 show ?thesis
      by (auto simp: local_result_def dest: settled_failed)
  qed
  with process_test_results_inv [OF run assms(2)] assms(3)
  show nf: "\<not> is_failure c'"
    by (auto simp: merge_inv_def)
  then show "fst (complete_test_run c' now r') =
              [(''state'', JStr ''Completed''), (''completedDate'', JStr now)]"
    by (simp add: complete_test_run_def)
next
  assume ids: "list_all (\<lambda>p. \<not> isl (getitem p ''id'')) points"
  have rec: "records_ok tr h"
    using assms(4) by (auto simp: all_passed_def records_ok_def list_all_iff)
  have "list_all point_ok points"
    unfolding list_all_iff
  proof
    fix p assume "p \<in> set points"
    with assms(5) ids have "lookup_point tr p \<noteq> None" "\<not> isl (getitem p ''id'')"
      by (auto simp: all_matched_def list_all_iff)
    then show "point_ok p" by (rule all_matched_point_ok)
  qed
  from process_points_total [OF assms(2) rec this, of c "[]"]
  show "\<not> isl (process_test_results c r tr h)"
    by (auto simp: process_test_results_eq [OF assms(1)])
qed

theorem all_matched_and_passed_completes_witness:
  "valid_refs ok_results ok_heap
   \<and> \<not> is_failure new_client
   \<and> all_passed ok_results ok_heap
   \<and> all_matched ok_results [point 55 ''123'']
   \<and> list_all (\<lambda>p. \<not> isl (getitem p ''id'')) [point 55 ''123'']
   \<and> process_test_results new_client (listing [point 55 ''123'']) ok_results ok_heap
       = Inr ([0],
           [[(''outcome'', JStr ''Passed''), (''id'', JInt 55), (''state'', JStr ''Completed''),
             (''priority'', JInt 2)],
            [(''outcome'', JStr ''NotExecuted'')]],
           new_client)
   \<and> \<not> isl (process_test_results new_client (listing [point 55 ''123'']) ok_results ok_heap)
   \<and> fst (complete_test_run new_client ''t2'' ok_response)
       = [(''state'', JStr ''Completed''), (''completedDate'', JStr ''t2'')]"
proof -
  have nf: "\<not> is_failure new_client"
    by (simp add: new_client_def)
  have ap: "all_passed ok_results ok_heap"
    by (simp add: all_passed_def ok_results_def ok_heap_def)
  have am: "all_matched ok_results [point 55 ''123'']"
    by (simp add: all_matched_def lookup_point_def test_case_id_point ok_results_def)
  have ids: "list_all (\<lambda>p. \<not> isl (getitem p ''id'')) [point 55 ''123'']"
    by (simp add: point_def getitem_def)
  note t = all_matched_and_passed_completes [OF listing_value ok_valid nf ap am,
      of "''t2''" ok_response]
  from t ids have ret:
    "\<not> isl (process_test_results new_client (listing [point 55 ''123'']) ok_results ok_heap)"
    by blast
  from t ok_run have st: "fst (complete_test_run new_client ''t2'' ok_response)
       = [(''state'', JStr ''Completed''), (''completedDate'', JStr ''t2'')]"
    by blast
  from ok_valid nf ap am ids ok_run ret st show ?thesis
    by (intro conjI)
qed

text \<open>
  Without the condition on the placeholders the statement fails. Every record of the
  mapping below has outcome \<^verbatim>\<open>"Passed"\<close>, the one placeholder has a test-case id that
  is not a key of the mapping, and the merge sets the flag, so that the run is completed
  as \<^verbatim>\<open>"NeedsInvestigation"\<close>.
\<close>

theorem all_passed_flag_counterexample:
  "all_passed ok_results ok_heap
   \<and> \<not> is_failure new_client
   \<and> process_test_results new_client (listing [point 77 ''999'']) ok_results ok_heap
       = Inr ([1],
           [[(''outcome'', JStr ''Passed'')],
            [(''outcome'', JStr ''NotExecuted''), (''id'', JInt 77),
             (''state'', JStr ''Completed''), (''priority'', JInt 2),
             (''failureType'', JStr ''New Issue'')]],
           \<lparr>is_failure = True\<rparr>)
   \<and> is_failure \<lparr>is_failure = True\<rparr>
   \<and> fst (complete_test_run \<lparr>is_failure = True\<rparr> ''t2'' ok_response)
       = [(''state'', JStr ''NeedsInvestigation''), (''completedDate'', JStr ''t2'')]"
proof -
  have ap: "all_passed ok_results ok_heap"
    by (simp add: all_passed_def ok_results_def ok_heap_def)
  have nf: "\<not> is_failure new_client"
    by (simp add: new_client_def)
  have flag: "is_failure \<lparr>is_failure = True\<rparr>"
    by simp
  have st: "fst (complete_test_run \<lparr>is_failure = True\<rparr> ''t2'' ok_response)
       = [(''state'', JStr ''NeedsInvestigation''), (''completedDate'', JStr ''t2'')]"
    by (simp add: complete_test_run_def)
  from ap nf um_run flag st show ?thesis
    by (intro conjI)
qed

text \<open>
  C5. Resolving a plan or a suite name scans the listed items in the order of the
  response and compares names as strings, so case matters: when every listed item is an
  object with a name and an id, the result is the id of the first item whose name is the
  requested one, and when there is none it is a \<open>ValueError\<close> whose message holds the
  requested name.
\<close>

theorem name_resolution_first_match:
  assumes "response_value r = Inr items" and "list_all named items"
  shows "get_test_plan_id r name =
           (case find (\<lambda>x. field x ''name'' = Some (JStr name)) items of
              Some x \<Rightarrow> Inr (the (field x ''id''))
            | None \<Rightarrow> Inl (ValueError (''Test plan '' @ quote @ name @ quote @ '' not found'')))
       \<and> get_test_suite_id fmt r plan_id name =
           (case find (\<lambda>x. field x ''name'' = Some (JStr name)) items of
              Some x \<Rightarrow> Inr (the (field x ''id''))
            | None \<Rightarrow> Inl (ValueError (''Test suite '' @ quote @ name @ quote
                          @ '' not found in plan '' @ fmt plan_id)))"
  unfolding get_test_plan_id_def get_test_suite_id_def
  by (simp only: assms(1) bind_err_simps scan_names_find [OF assms(2)])

theorem name_resolution_first_match_witness:
  "get_test_plan_id plans_AB ''B'' = Inr (JInt 2)
   \<and> get_test_plan_id plans_AB ''C'' = Inl (ValueError ''Test plan 'C' not found'')
   \<and> get_test_plan_id plans_AB ''b'' = Inl (ValueError ''Test plan 'b' not found'')
   \<and> get_test_suite_id (\<lambda>v. ''7'') plans_AB (JInt 7) ''A'' = Inr (JInt 1)
   \<and> get_test_suite_id (\<lambda>v. ''7'') plans_AB (JInt 7) ''C''
       = Inl (ValueError ''Test suite 'C' not found in plan 7'')"
proof -
  have w: "list_all named
     [JObj [(''id'', JInt 1), (''name'', JStr ''A'')],
      JObj [(''id'', JInt 2), (''name'', JStr ''B'')]]"
    by (simp add: named_def field_def)
  show ?thesis
    using name_resolution_first_match [OF plans_AB_value w, of "''B''" "\<lambda>v. ''7''" "JInt 7"]
      name_resolution_first_match [OF plans_AB_value w, of "''C''" "\<lambda>v. ''7''" "JInt 7"]
      name_resolution_first_match [OF plans_AB_value w, of "''b''" "\<lambda>v. ''7''" "JInt 7"]
      name_resolution_first_match [OF plans_AB_value w, of "''A''" "\<lambda>v. ''7''" "JInt 7"]
    by (simp add: field_def quote_def)
qed

text \<open>
  C6. \<^verbatim>\<open>post_test_results\<close> and \<^verbatim>\<open>complete_test_run\<close> raise exactly when the status of
  the PATCH response is not 200; the error is a \<open>ValueError\<close> whose message contains
  the decimal status code and the body text of the response. On status 200 both return.
\<close>

theorem patch_raises_iff_not_200:
  "(isl (snd (post_test_results h payload r)) \<longleftrightarrow> status_code r \<noteq> 200)
   \<and> (isl (snd (complete_test_run c now r)) \<longleftrightarrow> status_code r \<noteq> 200)
   \<and> (status_code r \<noteq> 200 \<longrightarrow>
        (\<exists>msg. snd (post_test_results h payload r) = Inl (ValueError msg)
           \<and> sublist (str_int (status_code r)) msg \<and> sublist (response_text r) msg)
      \<and> (\<exists>msg. snd (complete_test_run c now r) = Inl (ValueError msg)
           \<and> sublist (str_int (status_code r)) msg \<and> sublist (response_text r) msg))
   \<and> (status_code r = 200 \<longrightarrow>
        snd (post_test_results h payload r) = Inr ()
      \<and> snd (complete_test_run c now r) = Inr ())"
proof (cases "status_code r = 200")
  case True
  then show ?thesis
    by (simp add: post_test_results_def complete_test_run_def)
next
  case False
  define m1 where "m1 = ''Unexpected Response while posting test results to ADO: ''
      @ ''status_code: '' @ str_int (status_code r)
      @ '' response_text: '' @ response_text r"
  define m2 where "m2 = ''Unexpected Response while completing the test run in ADO: ''
      @ ''status_code: '' @ str_int (status_code r)
      @ '' response_text: '' @ response_text r"
  have p: "snd (post_test_results h payload r) = Inl (ValueError m1)"
    using False unfolding post_test_results_def m1_def by simp
  have c: "snd (complete_test_run c now r) = Inl (ValueError m2)"
    using False unfolding complete_test_run_def m2_def Let_def by simp
  have "sublist (str_int (status_code r)) m1" "sublist (response_text r) m1"
    "sublist (str_int (status_code r)) m2" "sublist (response_text r) m2"
    unfolding m1_def m2_def by (rule sublist_third sublist_fifth)+
  with p c False show ?thesis by simp
qed

theorem patch_raises_iff_not_200_witness:
  "status_code \<lparr>status_code = 500, response_text = ''boom'', json_body = None\<rparr> \<noteq> 200
   \<and> isl (snd (post_test_results [] []
          \<lparr>status_code = 500, response_text = ''boom'', json_body = None\<rparr>))
   \<and> snd (post_test_results [] []
          \<lparr>status_code = 500, response_text = ''boom'', json_body = None\<rparr>)
       = Inl (ValueError
           ''Unexpected Response while posting test results to ADO: status_code: 500 response_text: boom'')
   \<and> snd (complete_test_run new_client ''2024-01-01T00:00:00Z''
          \<lparr>status_code = 500, response_text = ''boom'', json_body = None\<rparr>)
       = Inl (ValueError
           ''Unexpected Response while completing the test run in ADO: status_code: 500 response_text: boom'')
   \<and> snd (post_test_results [] []
          \<lparr>status_code = 200, response_text = ''ok'', json_body = None\<rparr>) = Inr ()
   \<and> snd (complete_test_run new_client ''2024-01-01T00:00:00Z''
          \<lparr>status_code = 200, response_text = ''ok'', json_body = None\<rparr>) = Inr ()"
  using patch_raises_iff_not_200 [of "[]" "[]"
      "\<lparr>status_code = 500, response_text = ''boom'', json_body = None\<rparr>"
      new_client "''2024-01-01T00:00:00Z''"]
    patch_raises_iff_not_200 [of "[]" "[]"
      "\<lparr>status_code = 200, response_text = ''ok'', json_body = None\<rparr>"
      new_client "''2024-01-01T00:00:00Z''"]
  by (simp add: post_test_results_def complete_test_run_def str_int_500)

text \<open>
  C7. For a placeholder whose test-case id finds nothing in the mapping, the record of
  the returned payload is the default with outcome \<^verbatim>\<open>"NotExecuted"\<close>, stamped with the
  placeholder's id, state \<^verbatim>\<open>"Completed"\<close>, priority 2 and failure type \<^verbatim>\<open>"New Issue"\<close>;
  the failure flag is set and \<^verbatim>\<open>complete_test_run\<close> sends \<^verbatim>\<open>"NeedsInvestigation"\<close>.
\<close>

theorem unmatched_point_not_executed:
  assumes "response_value r = Inr points"
    and "process_test_results c r tr h = Inr (payload, h', c')"
    and "valid_refs tr h"
    and "i < length points"
    and "test_case_id (points ! i) = Inr key"
    and "dict_get tr key = Inr None"
  shows "(\<exists>pid. getitem (points ! i) ''id'' = Inr pid
          \<and> h' ! (payload ! i) =
              [(''outcome'', JStr ''NotExecuted''), (''id'', pid),
               (''state'', JStr ''Completed''), (''priority'', JInt 2),
               (''failureType'', JStr ''New Issue'')])
    \<and> is_failure c'
    \<and> fst (complete_test_run c' now r') =
          [(''state'', JStr ''NeedsInvestigation''), (''completedDate'', JStr now)]"
proof -
  have lp: "lookup_point tr (points ! i) = None"
    using assms(5,6) by (rule dict_get_None_lookup)
  have at: "payload ! i = length h + i"
    using payload_entry(1) [OF assms(1-4)] lp by (simp add: target_pair)
  from assms(2) have run: "process_points c tr points h [] = Inr (payload, h', c')"
    by (simp add: process_test_results_eq [OF assms(1)])
  have later: "\<forall>m. i < m \<and> m < length points \<longrightarrow>
      lookup_point tr (points ! m) \<noteq> Some (target tr (length h + i, points ! i))"
    using valid_refs_lookup [OF assms(3)] lp by (fastforce simp: target_pair)
  from process_points_last_writer [OF run assms(3,4) later] lp
  obtain pid where pid: "getitem (points ! i) ''id'' = Inr pid"
    and cell: "h' ! (payload ! i) = stamp pid default_result"
    by (auto simp: at target_pair)
  have cell': "h' ! (payload ! i) =
      [(''outcome'', JStr ''NotExecuted''), (''id'', pid),
       (''state'', JStr ''Completed''), (''priority'', JInt 2),
       (''failureType'', JStr ''New Issue'')]"
    by (simp add: cell stamp_def default_result_def)
  have "failed (h' ! (payload ! i))"
    by (simp add: cell' failed_def)
  with process_test_results_inv [OF assms(2,3)] payload_entry(2) [OF assms(1-4)]
  have flag: "is_failure c'"
    by (auto simp: merge_inv_def)
  from pid cell' flag show ?thesis
    by (simp add: complete_test_run_def)
qed

theorem unmatched_point_not_executed_witness:
  "valid_refs ok_results ok_heap
   \<and> test_case_id (point 77 ''999'') = Inr (JStr ''999'')
   \<and> dict_get ok_results (JStr ''999'') = Inr None
   \<and> process_test_results new_client (listing [point 77 ''999'']) ok_results ok_heap
       = Inr ([1],
           [[(''outcome'', JStr ''Passed'')],
            [(''outcome'', JStr ''NotExecuted''), (''id'', JInt 77),
             (''state'', JStr ''Completed''), (''priority'', JInt 2),
             (''failureType'', JStr ''New Issue'')]],
           \<lparr>is_failure = True\<rparr>)
   \<and> is_failure \<lparr>is_failure = True\<rparr>
   \<and> fst (complete_test_run \<lparr>is_failure = True\<rparr> ''t2'' ok_response)
       = [(''state'', JStr ''NeedsInvestigation''), (''completedDate'', JStr ''t2'')]"
proof -
  have i0: "0 < length [point 77 ''999'']"
    by simp
  have k: "test_case_id ([point 77 ''999''] ! 0) = Inr (JStr ''999'')"
    by (simp add: test_case_id_point)
  have none: "dict_get ok_results (JStr ''999'') = Inr None"
    by (simp add: dict_get_def ok_results_def)
  note t = unmatched_point_not_executed [OF listing_value um_run ok_valid i0 k none,
      of "''t2''" ok_response]
  from t have flag: "is_failure \<lparr>is_failure = True\<rparr>"
    and state: "fst (complete_test_run \<lparr>is_failure = True\<rparr> ''t2'' ok_response)
       = [(''state'', JStr ''NeedsInvestigation''), (''completedDate'', JStr ''t2'')]"
    by blast+
  from k have k': "test_case_id (point 77 ''999'') = Inr (JStr ''999'')"
    by simp
  from ok_valid k' none um_run flag state show ?thesis
    by (intro conjI)
qed

text \<open>
  C8. An entry of the mapping whose test-case id belongs to no placeholder is dropped:
  its record is not in the returned payload and is left as it was, and replacing the
  record by any other, whatever its outcome, changes nothing in the result (payload,
  flag, error, and every other dictionary) but that cell.
\<close>

theorem unmatched_entries_dropped:
  assumes "response_value r = Inr points"
    and "valid_refs tr h"
    and "held_under tr k b"
    and "\<forall>p \<in> set points. test_case_id p \<noteq> Inr (JStr k)"
  shows "(\<forall>payload h' c'. process_test_results c r tr h = Inr (payload, h', c') \<longrightarrow>
            b \<notin> set payload \<and> h' ! b = h ! b)
    \<and> (\<forall>d. process_test_results c r tr (h[b := d])
            = keep_cell b d (process_test_results c r tr h))"
proof -
  have other: "\<forall>p \<in> set points. lookup_point tr p \<noteq> Some b"
    using assms(4) held_under_lookup [OF assms(3)] by blast
  have "(k, b) \<in> set tr"
    using assms(3) by (auto simp: held_under_def dest: map_of_SomeD)
  with assms(2) have b: "b < length h"
    by (auto simp: valid_refs_def list_all_iff)
  have frame: "process_test_results c r tr (h[b := d])
            = keep_cell b d (process_test_results c r tr h)" for d
    using process_points_frame [OF assms(2) b other]
    by (simp add: process_test_results_eq [OF assms(1)])
  have drop: "b \<notin> set payload \<and> h' ! b = h ! b"
    if run: "process_test_results c r tr h = Inr (payload, h', c')" for payload h' c'
  proof
    from run have run': "process_points c tr points h [] = Inr (payload, h', c')"
      by (simp add: process_test_results_eq [OF assms(1)])
    show "h' ! b = h ! b"
      by (rule process_points_untouched [OF run' assms(2) b other])
    show "b \<notin> set payload"
    proof
      assume "b \<in> set payload"
      then obtain i where i: "i < length payload" "payload ! i = b"
        by (auto simp: in_set_conv_nth)
      then have i': "i < length points"
        using payload_length [OF assms(1) run assms(2)] by simp
      from payload_entry(1) [OF assms(1) run assms(2) i'] i(2) other i' b
      show False
        by (cases "lookup_point tr (points ! i)") (auto simp: target_pair)
    qed
  qed
  from frame drop show ?thesis by blast
qed

theorem unmatched_entries_dropped_witness:
  "valid_refs ex_results ex_heap
   \<and> held_under ex_results ''5'' 1
   \<and> list_all (\<lambda>p. test_case_id p \<noteq> Inr (JStr ''5'')) ex_points
   \<and> process_test_results new_client (listing ex_points) ex_results ex_heap
       = Inr ([0, 3, 0], ex_merged, \<lparr>is_failure = True\<rparr>)
   \<and> 1 \<notin> set [0, 3, 0::nat]
   \<and> ex_merged ! 1 = ex_heap ! 1
   \<and> process_test_results new_client (listing ex_points) ex_results
         (ex_heap[1 := [(''outcome'', JStr ''Passed'')]])
       = Inr ([0, 3, 0], ex_merged[1 := [(''outcome'', JStr ''Passed'')]],
           \<lparr>is_failure = True\<rparr>)"
proof -
  have held: "held_under ex_results ''5'' 1"
    by (simp add: held_under_def ex_results_def)
  have none: "list_all (\<lambda>p. test_case_id p \<noteq> Inr (JStr ''5'')) ex_points"
    by (simp add: ex_points_def test_case_id_point)
  then have none': "\<forall>p \<in> set ex_points. test_case_id p \<noteq> Inr (JStr ''5'')"
    by (simp add: list_all_iff)
  note t = unmatched_entries_dropped [OF listing_value ex_valid held none',
      of new_client]
  from t ex_run have d1: "1 \<notin> set [0, 3, 0::nat]" and d2: "ex_merged ! 1 = ex_heap ! 1"
    by blast+
  from t have "process_test_results new_client (listing ex_points) ex_results
         (ex_heap[1 := [(''outcome'', JStr ''Passed'')]])
       = keep_cell 1 [(''outcome'', JStr ''Passed'')]
           (process_test_results new_client (listing ex_points) ex_results ex_heap)"
    by blast
  then have d3: "process_test_results new_client (listing ex_points) ex_results
         (ex_heap[1 := [(''outcome'', JStr ''Passed'')]])
       = Inr ([0, 3, 0], ex_merged[1 := [(''outcome'', JStr ''Passed'')]],
           \<lparr>is_failure = True\<rparr>)"
    by (simp add: ex_run)
  from ex_valid held none ex_run d1 d2 d3 show ?thesis
    by (intro conjI)
qed

text \<open>
  C9. For a placeholder whose test-case id is a key of the mapping, the payload entry
  is the address the mapping holds under that key, so the caller's dictionary itself is
  updated: it now has state \<^verbatim>\<open>"Completed"\<close>, every key other than \<^verbatim>\<open>id\<close>, \<^verbatim>\<open>state\<close>,
  \<^verbatim>\<open>priority\<close> and \<^verbatim>\<open>failureType\<close> reads as before, and so does \<^verbatim>\<open>failureType\<close> when
  the outcome is \<^verbatim>\<open>"Passed"\<close>.
\<close>

theorem merge_updates_in_place:
  assumes "response_value r = Inr points"
    and "process_test_results c r tr h = Inr (payload, h', c')"
    and "valid_refs tr h"
    and "i < length points"
    and "test_case_id (points ! i) = Inr (JStr k)"
    and "map_of tr k = Some a"
  shows "payload ! i = a
    \<and> map_of (h' ! a) ''state'' = Some (JStr ''Completed'')
    \<and> (\<forall>key. key \<notin> {''id'', ''state'', ''priority'', ''failureType''} \<longrightarrow>
          map_of (h' ! a) key = map_of (h ! a) key)
    \<and> (map_of (h ! a) ''outcome'' = Some (JStr ''Passed'') \<longrightarrow>
          map_of (h' ! a) ''failureType'' = map_of (h ! a) ''failureType'')"
proof -
  have lp: "lookup_point tr (points ! i) = Some a"
    using assms(5,6) by (simp add: lookup_point_key)
  have at: "payload ! i = a"
    using payload_entry(1) [OF assms(1-4)] lp by (simp add: target_pair)
  from payload_entry(3) [OF assms(1-4)]
  obtain pid where m: "map_of (h' ! a) = map_of (stamp pid (h ! a))"
    by (auto simp: settled_def at local_result_def lp)
  show ?thesis
    by (simp add: at m map_of_stamp)
qed

theorem merge_updates_in_place_witness:
  "valid_refs ex_results ex_heap
   \<and> process_test_results new_client (listing ex_points) ex_results ex_heap
       = Inr ([0, 3, 0], ex_merged, \<lparr>is_failure = True\<rparr>)
   \<and> test_case_id (ex_points ! 0) = Inr (JStr ''123'')
   \<and> map_of ex_results ''123'' = Some 0
   \<and> [0, 3, 0] ! 0 = (0::nat)
   \<and> map_of (ex_merged ! 0) ''state'' = Some (JStr ''Completed'')
   \<and> map_of (ex_merged ! 0) ''outcome'' = map_of (ex_heap ! 0) ''outcome''"
proof -
  have i0: "0 < length ex_points"
    by (simp add: ex_points_nth)
  have k: "test_case_id (ex_points ! 0) = Inr (JStr ''123'')"
    by (simp add: ex_points_nth test_case_id_point)
  have a: "map_of ex_results ''123'' = Some 0"
    by (simp add: ex_results_def)
  note t = merge_updates_in_place [OF listing_value ex_run ex_valid i0 k a]
  have other: "''outcome'' \<notin> {''id'', ''state'', ''priority'', ''failureType''}"
    by simp
  have same: "map_of (ex_merged ! 0) ''outcome'' = map_of (ex_heap ! 0) ''outcome''"
    by (rule t [THEN conjunct2, THEN conjunct2, THEN conjunct1, rule_format, OF other])
  have at: "[0, 3, 0] ! 0 = (0::nat)"
    by simp
  from t have st: "map_of (ex_merged ! 0) ''state'' = Some (JStr ''Completed'')"
    by (rule conjunct2 [THEN conjunct1])
  from ex_valid ex_run k a at st same show ?thesis
    by (intro conjI)
qed

text \<open>
  C10. When placeholders share a test-case id that is a key of the mapping, the payload
  entry of each of them is the one address the mapping holds under that key, and the
  dictionary there carries the \<^verbatim>\<open>"id"\<close> of the last of these placeholders.
\<close>

theorem shared_test_case_aliases:
  assumes "response_value r = Inr points"
    and "process_test_results c r tr h = Inr (payload, h', c')"
    and "valid_refs tr h"
    and "held_under tr k a"
    and "j < length points"
    and "test_case_id (points ! j) = Inr (JStr k)"
    and "\<forall>m. j < m \<and> m < length points \<longrightarrow> test_case_id (points ! m) \<noteq> Inr (JStr k)"
  shows "(\<forall>m < length points. test_case_id (points ! m) = Inr (JStr k) \<longrightarrow> payload ! m = a)
    \<and> (\<exists>pid. getitem (points ! j) ''id'' = Inr pid \<and> map_of (h' ! a) ''id'' = Some pid)"
proof (intro conjI allI impI)
  fix m assume m: "m < length points" and "test_case_id (points ! m) = Inr (JStr k)"
  then have "lookup_point tr (points ! m) = Some a"
    using assms(4) by (simp add: lookup_point_key held_under_def)
  then show "payload ! m = a"
    using payload_entry(1) [OF assms(1-3) m] by (simp add: target_pair)
next
  have lp: "lookup_point tr (points ! j) = Some a"
    using assms(4,6) by (simp add: lookup_point_key held_under_def)
  from assms(2) have run: "process_points c tr points h [] = Inr (payload, h', c')"
    by (simp add: process_test_results_eq [OF assms(1)])
  have later: "\<forall>m. j < m \<and> m < length points \<longrightarrow>
      lookup_point tr (points ! m) \<noteq> Some (target tr (length h + j, points ! j))"
    using assms(7) held_under_lookup [OF assms(4)] lp by (auto simp: target_pair)
  from process_points_last_writer [OF run assms(3,5) later] lp
  obtain pid d where "getitem (points ! j) ''id'' = Inr pid" "h' ! a = stamp pid d"
    by (auto simp: target_pair)
  then show "\<exists>pid. getitem (points ! j) ''id'' = Inr pid \<and> map_of (h' ! a) ''id'' = Some pid"
    by (auto simp: map_of_stamp)
qed

theorem shared_test_case_aliases_witness:
  "valid_refs ex_results ex_heap
   \<and> held_under ex_results ''123'' 0
   \<and> test_case_id (ex_points ! 0) = Inr (JStr ''123'')
   \<and> test_case_id (ex_points ! 2) = Inr (JStr ''123'')
   \<and> process_test_results new_client (listing ex_points) ex_results ex_heap
       = Inr ([0, 3, 0], ex_merged, \<lparr>is_failure = True\<rparr>)
   \<and> [0, 3, 0] ! 0 = (0::nat) \<and> [0, 3, 0] ! 2 = (0::nat)
   \<and> getitem (ex_points ! 2) ''id'' = Inr (JInt 11)
   \<and> map_of (ex_merged ! 0) ''id'' = Some (JInt 11)"
proof -
  have held: "held_under ex_results ''123'' 0"
    by (simp add: held_under_def ex_results_def)
  have j: "2 < length ex_points"
    by (simp add: ex_points_nth)
  have k0: "test_case_id (ex_points ! 0) = Inr (JStr ''123'')"
    and k2: "test_case_id (ex_points ! 2) = Inr (JStr ''123'')"
    by (simp_all add: ex_points_nth test_case_id_point)
  have last: "\<forall>m. 2 < m \<and> m < length ex_points \<longrightarrow>
      test_case_id (ex_points ! m) \<noteq> Inr (JStr ''123'')"
    by (auto simp: ex_points_nth)
  note t = shared_test_case_aliases [OF listing_value ex_run ex_valid held j k2 last]
  have id2: "getitem (ex_points ! 2) ''id'' = Inr (JInt 11)"
    by (simp add: ex_points_nth point_def getitem_def)
  from t id2 have idm: "map_of (ex_merged ! 0) ''id'' = Some (JInt 11)"
    by auto
  have i0: "0 < length ex_points"
    by (simp add: ex_points_nth)
  from t i0 k0 have p0: "[0, 3, 0] ! 0 = (0::nat)"
    by blast
  from t j k2 have p2: "[0, 3, 0] ! 2 = (0::nat)"
    by blast
  from ex_valid held k0 k2 ex_run p0 p2 id2 idm show ?thesis
    by (intro conjI)
qed

end

